theory Spec2Isabelle
  imports Complex_Main "HOL-Library.AList" "HOL-Library.Char_ord" "HOL-Library.List_Lexorder"
begin

section \<open>Floating-point values and arithmetic\<close>

text \<open>
  The program of \<^verbatim>\<open>src/dataloader/data_explorer.py\<close> computes with numpy's
  \<^verbatim>\<open>float64\<close>.  A value is a finite number, one of the two infinities or NaN.  The two
  zeros of \<^verbatim>\<open>float64\<close> are one value here: they are equal in every comparison the program
  makes and differ only in the text written for them (\<^verbatim>\<open>0.0\<close> and \<^verbatim>\<open>-0.0\<close>), so the
  formatting \<open>fmt\<close> of the CSV files below renders both in the same way.
  Every arithmetic operation computes the exact result and rounds it; the rounding
  is a parameter of the model, with two instances: \<open>binary64\<close>, the arithmetic the
  program runs on, and \<open>exact\<close>, which rounds nothing.
\<close>

datatype float64 = Fin real | PInf | NInf | NaN

type_synonym rounding = "real \<Rightarrow> float64"

definition exact :: rounding where
  "exact x = Fin x"

text \<open>Round to the nearest integer, ties to the even one.\<close>

definition round_half_even :: "real \<Rightarrow> int" where
  "round_half_even q =
     (let f = \<lfloor>q\<rfloor>; r = q - of_int f
      in if r < 1 / 2 then f
         else if 1 / 2 < r then f + 1
         else if even f then f else f + 1)"

text \<open>
  IEEE 754 binary64, round to nearest, ties to even: 53 significant bits, the least
  exponent of a normal number is \<open>-1022\<close> (below it the spacing stays \<open>2 powi -1074\<close>),
  and a result that rounds to \<open>2 ^ 1024\<close> or beyond overflows to an infinity.
\<close>

definition binary64 :: rounding where
  "binary64 x =
     (if x = 0 then Fin 0
      else let e = max \<lfloor>log 2 \<bar>x\<bar>\<rfloor> (- 1022) - 52;
               y = of_int (round_half_even (x / 2 powi e)) * 2 powi e
           in if 2 ^ 1024 \<le> \<bar>y\<bar> then (if 0 < x then PInf else NInf) else Fin y)"

definition isnan :: "float64 \<Rightarrow> bool" where
  "isnan a = (a = NaN)"

definition isfinite :: "float64 \<Rightarrow> bool" where
  "isfinite a = (case a of Fin _ \<Rightarrow> True | _ \<Rightarrow> False)"

fun fneg :: "float64 \<Rightarrow> float64" where
  "fneg (Fin x) = Fin (- x)"
| "fneg PInf = NInf"
| "fneg NInf = PInf"
| "fneg NaN = NaN"

fun fadd :: "rounding \<Rightarrow> float64 \<Rightarrow> float64 \<Rightarrow> float64" where
  "fadd rnd (Fin x) (Fin y) = rnd (x + y)"
| "fadd rnd NaN _ = NaN"
| "fadd rnd _ NaN = NaN"
| "fadd rnd PInf NInf = NaN"
| "fadd rnd NInf PInf = NaN"
| "fadd rnd PInf _ = PInf"
| "fadd rnd NInf _ = NInf"
| "fadd rnd _ PInf = PInf"
| "fadd rnd _ NInf = NInf"

definition fsub :: "rounding \<Rightarrow> float64 \<Rightarrow> float64 \<Rightarrow> float64" where
  "fsub rnd a b = fadd rnd a (fneg b)"

text \<open>The sign of a value: \<open>Some True\<close> positive, \<open>Some False\<close> negative, \<open>None\<close> zero or NaN.\<close>

fun fsign :: "float64 \<Rightarrow> bool option" where
  "fsign (Fin x) = (if 0 < x then Some True else if x < 0 then Some False else None)"
| "fsign PInf = Some True"
| "fsign NInf = Some False"
| "fsign NaN = None"

definition signed_inf :: "bool option \<Rightarrow> bool option \<Rightarrow> float64" where
  "signed_inf s t =
     (case (s, t) of
        (Some p, Some q) \<Rightarrow> if p = q then PInf else NInf
      | _ \<Rightarrow> NaN)"

fun fmul :: "rounding \<Rightarrow> float64 \<Rightarrow> float64 \<Rightarrow> float64" where
  "fmul rnd (Fin x) (Fin y) = rnd (x * y)"
| "fmul rnd NaN _ = NaN"
| "fmul rnd _ NaN = NaN"
| "fmul rnd a b = signed_inf (fsign a) (fsign b)"

fun fdiv :: "rounding \<Rightarrow> float64 \<Rightarrow> float64 \<Rightarrow> float64" where
  "fdiv rnd (Fin x) (Fin y) =
     (if y = 0 then signed_inf (fsign (Fin x)) (Some True) else rnd (x / y))"
| "fdiv rnd NaN _ = NaN"
| "fdiv rnd _ NaN = NaN"
| "fdiv rnd (Fin x) _ = Fin 0"
| "fdiv rnd a (Fin y) = signed_inf (fsign a) (if y < 0 then Some False else Some True)"
| "fdiv rnd _ _ = NaN"

fun fsqrt :: "rounding \<Rightarrow> float64 \<Rightarrow> float64" where
  "fsqrt rnd (Fin x) = (if x < 0 then NaN else rnd (sqrt x))"
| "fsqrt rnd PInf = PInf"
| "fsqrt rnd NInf = NaN"
| "fsqrt rnd NaN = NaN"

text \<open>The comparison \<^verbatim>\<open>a <= b\<close>: false as soon as one side is NaN.\<close>

fun fle :: "float64 \<Rightarrow> float64 \<Rightarrow> bool" where
  "fle (Fin x) (Fin y) = (x \<le> y)"
| "fle NaN _ = False"
| "fle _ NaN = False"
| "fle NInf _ = True"
| "fle _ PInf = True"
| "fle _ _ = False"

text \<open>\<^verbatim>\<open>np.maximum\<close> and \<^verbatim>\<open>np.minimum\<close>: a NaN operand gives NaN.\<close>

definition fmaximum :: "float64 \<Rightarrow> float64 \<Rightarrow> float64" where
  "fmaximum a b = (if isnan a \<or> isnan b then NaN else if fle a b then b else a)"

definition fminimum :: "float64 \<Rightarrow> float64 \<Rightarrow> float64" where
  "fminimum a b = (if isnan a \<or> isnan b then NaN else if fle a b then a else b)"


section \<open>The numpy and pandas reductions the program calls\<close>

datatype py_error = FileNotFoundError | IndexError | ValueError | KeyError | TypeError

text \<open>
  \<^verbatim>\<open>np.sum\<close> over the samples of a contiguous \<^verbatim>\<open>float64\<close> array is numpy's pairwise
  summation (\<^verbatim>\<open>pairwise_sum\<close> in the loops of \<^verbatim>\<open>np.add\<close>).  Fewer than eight samples are
  added to zero one by one, left to right.  Up to 128 samples are added in eight interleaved
  partial sums \<open>r\<close>, eight samples at a time, which are then combined as a balanced tree;
  the samples left over are added to the result one by one.  A longer array is cut in two
  (the first part a multiple of eight long), the parts are summed in the same way and the
  two results added.  (The reduction adds this result to its initial value, zero, which
  does not change it.)
\<close>

fun unrolled_sums ::
  "rounding \<Rightarrow> float64 list \<Rightarrow> float64 list \<Rightarrow> float64 list \<times> float64 list" where
  "unrolled_sums rnd r xs =
     (if length xs < 8 then (r, xs)
      else unrolled_sums rnd (map2 (fadd rnd) r (take 8 xs)) (drop 8 xs))"

declare unrolled_sums.simps [simp del]

definition combine_sums :: "rounding \<Rightarrow> float64 list \<Rightarrow> float64" where
  "combine_sums rnd r =
     fadd rnd (fadd rnd (fadd rnd (r ! 0) (r ! 1)) (fadd rnd (r ! 2) (r ! 3)))
              (fadd rnd (fadd rnd (r ! 4) (r ! 5)) (fadd rnd (r ! 6) (r ! 7)))"

function pairwise_sum :: "rounding \<Rightarrow> float64 list \<Rightarrow> float64" where
  "pairwise_sum rnd xs =
     (if length xs < 8 then foldl (fadd rnd) (Fin 0) xs
      else if length xs \<le> 128 then
        (case unrolled_sums rnd (take 8 xs) (drop 8 xs) of
           (r, rest) \<Rightarrow> foldl (fadd rnd) (combine_sums rnd r) rest)
      else
        (let n2 = length xs div 2 - length xs div 2 mod 8
         in fadd rnd (pairwise_sum rnd (take n2 xs)) (pairwise_sum rnd (drop n2 xs))))"
  by pat_completeness auto

termination
  by (relation "measure (\<lambda>(rnd, xs). length xs)") (auto simp: min_def)

declare pairwise_sum.simps [simp del]

definition np_sum :: "rounding \<Rightarrow> float64 list \<Rightarrow> float64" where
  "np_sum rnd xs = pairwise_sum rnd xs"

text \<open>\<^verbatim>\<open>np.mean\<close>: the sum divided by the number of samples; NaN (and a warning) on no sample.\<close>

definition np_mean :: "rounding \<Rightarrow> float64 list \<Rightarrow> float64" where
  "np_mean rnd xs = fdiv rnd (np_sum rnd xs) (Fin (real (length xs)))"

text \<open>\<^verbatim>\<open>np.max\<close> and \<^verbatim>\<open>np.min\<close> raise ValueError on a zero-size array.\<close>

definition np_max :: "float64 list \<Rightarrow> py_error + float64" where
  "np_max xs = (case xs of [] \<Rightarrow> Inl ValueError | x # ys \<Rightarrow> Inr (foldl fmaximum x ys))"

definition np_min :: "float64 list \<Rightarrow> py_error + float64" where
  "np_min xs = (case xs of [] \<Rightarrow> Inl ValueError | x # ys \<Rightarrow> Inr (foldl fminimum x ys))"

text \<open>
  numpy's variance for \<open>ddof\<close> delta degrees of freedom, in the steps of \<^verbatim>\<open>_var\<close>: the mean,
  the deviations from it, their squares, the sum of the squares, divided by \<open>N - ddof\<close>.
\<close>

definition sq_deviations :: "rounding \<Rightarrow> float64 list \<Rightarrow> float64 list" where
  "sq_deviations rnd xs =
     (let arrmean = np_mean rnd xs
      in map (\<lambda>x. let d = fsub rnd x arrmean in fmul rnd d d) xs)"

definition np_var :: "rounding \<Rightarrow> nat \<Rightarrow> float64 list \<Rightarrow> float64" where
  "np_var rnd ddof xs =
     fdiv rnd (np_sum rnd (sq_deviations rnd xs)) (Fin (real (length xs - ddof)))"

text \<open>\<^verbatim>\<open>np.std(a)\<close>: \<open>ddof = 0\<close> by default.\<close>

definition np_std :: "rounding \<Rightarrow> float64 list \<Rightarrow> float64" where
  "np_std rnd xs = fsqrt rnd (np_var rnd 0 xs)"

text \<open>
  The pandas group aggregations go over the entries of the group in their order and skip
  the NaN ones; a group without a valid entry gives NaN.
\<close>

definition dropna :: "float64 list \<Rightarrow> float64 list" where
  "dropna xs = filter (\<lambda>x. \<not> isnan x) xs"

text \<open>
  \<^verbatim>\<open>mean\<close> is pandas' \<^verbatim>\<open>group_mean\<close>: a compensated (Kahan) sum of the valid entries, divided
  by their number.  One step adds the entry \<open>val\<close> to the running sum \<open>sumx\<close> and keeps in
  \<open>compensation\<close> what the addition lost; a compensation that comes out as NaN (an infinite
  entry) is reset to zero.
\<close>

definition kahan_add :: "rounding \<Rightarrow> float64 \<times> float64 \<Rightarrow> float64 \<Rightarrow> float64 \<times> float64" where
  "kahan_add rnd acc val =
     (case acc of (sumx, compensation) \<Rightarrow>
        let y = fsub rnd val compensation;
            t = fadd rnd sumx y;
            c = fsub rnd (fsub rnd t sumx) y
        in (t, if isnan c then Fin 0 else c))"

definition pd_mean :: "rounding \<Rightarrow> float64 list \<Rightarrow> float64" where
  "pd_mean rnd xs =
     (let ys = dropna xs
      in if ys = [] then NaN
         else fdiv rnd (fst (foldl (kahan_add rnd) (Fin 0, Fin 0) ys)) (Fin (real (length ys))))"

definition pd_min :: "float64 list \<Rightarrow> float64" where
  "pd_min xs = (case np_min (dropna xs) of Inl _ \<Rightarrow> NaN | Inr m \<Rightarrow> m)"

definition pd_max :: "float64 list \<Rightarrow> float64" where
  "pd_max xs = (case np_max (dropna xs) of Inl _ \<Rightarrow> NaN | Inr m \<Rightarrow> m)"

text \<open>
  \<^verbatim>\<open>std\<close> is the square root of pandas' \<^verbatim>\<open>group_var\<close>, which accumulates in one pass
  (Welford's update) the number \<open>nobs\<close> of valid entries, their running mean and the sum
  \<open>m2\<close> of squared deviations, and divides that sum by \<open>nobs - ddof\<close>; the result is NaN
  unless \<open>nobs\<close> exceeds \<open>ddof\<close>, which is 1 by default.
\<close>

definition welford_add ::
  "rounding \<Rightarrow> nat \<times> float64 \<times> float64 \<Rightarrow> float64 \<Rightarrow> nat \<times> float64 \<times> float64" where
  "welford_add rnd acc val =
     (case acc of (nobs, oldmean, m2) \<Rightarrow>
        let mean = fadd rnd oldmean (fdiv rnd (fsub rnd val oldmean) (Fin (real (nobs + 1))))
        in (nobs + 1, mean, fadd rnd m2 (fmul rnd (fsub rnd val mean) (fsub rnd val oldmean))))"

definition pd_var :: "rounding \<Rightarrow> nat \<Rightarrow> float64 list \<Rightarrow> float64" where
  "pd_var rnd ddof xs =
     (case foldl (welford_add rnd) (0, Fin 0, Fin 0) (dropna xs) of
        (ct, mean, m2) \<Rightarrow> if ct \<le> ddof then NaN else fdiv rnd m2 (Fin (real (ct - ddof))))"

definition pd_std :: "rounding \<Rightarrow> float64 list \<Rightarrow> float64" where
  "pd_std rnd xs = fsqrt rnd (pd_var rnd 1 xs)"

section \<open>The data of the program\<close>

text \<open>
  A Python value as the program meets it: an integer, a string, a \<^verbatim>\<open>float64\<close> scalar or a
  one-dimensional array of them.
\<close>

datatype pyval = PyInt nat | PyStr string | PyFloat float64 | NdArray "float64 list"

text \<open>
  One cycle structure of a decoded \<^verbatim>\<open>.mat\<close> file.  A signal is the sequence of its samples;
  \<open>capacity_array\<close> lists the items of \<^verbatim>\<open>cycle["capacity"]\<close> along its first axis, so
  that \<^verbatim>\<open>cycle["capacity"][0]\<close> is its head (a scalar when the array has one dimension, a
  row when it has two).
\<close>

record mat_cycle =
  relative_time_min :: "float64 list"
  current_A :: "float64 list"
  voltage_V :: "float64 list"
  temperature_C :: "float64 list"
  capacity_array :: "pyval list"

text \<open>
  \<^verbatim>\<open>battery[0, i][0]\<close> is the cycle array of battery \<open>i\<close>, \<^verbatim>\<open>mat["battery"]\<close> the battery
  array of a file.  A directory is the list of its decoded files in the order
  \<^verbatim>\<open>os.listdir\<close> returns them, \<open>None\<close> when the directory does not exist.
\<close>

type_synonym battery = "mat_cycle list"
type_synonym mat_file = "battery list"

record filesystem =
  charge :: "mat_file list option"
  partial_charge :: "mat_file list option"
  output_dir :: "string \<rightharpoonup> string"

text \<open>The dictionary \<^verbatim>\<open>cycle_features\<close>, in the order of its keys.\<close>

record cycle_features =
  battery_id :: nat
  cycle_type :: string
  cycle_idx :: nat
  time_mean :: float64
  time_max :: float64
  current_mean :: float64
  current_max :: float64
  voltage_mean :: float64
  voltage_max :: float64
  temperature_mean :: float64
  temperature_max :: float64
  capacity :: pyval

record battery_group =
  cycles :: "cycle_features list"
  capacities :: "pyval list"

text \<open>
  The explorer object: \<open>battery_data\<close> is a Python dictionary (an association list with
  distinct keys, in insertion order), \<open>summary_data\<close> a list.
\<close>

record explorer =
  battery_data :: "(string \<times> battery_group) list"
  summary_data :: "cycle_features list"

definition init :: explorer where
  "init = \<lparr>battery_data = [], summary_data = []\<rparr>"

subsection \<open>Formatting integers\<close>

definition digit_char :: "nat \<Rightarrow> char" where
  "digit_char d = char_of (48 + d)"

fun str_nat :: "nat \<Rightarrow> string" where
  "str_nat n = (if n < 10 then [digit_char n] else str_nat (n div 10) @ [digit_char (n mod 10)])"

declare str_nat.simps [simp del]

text \<open>The key \<^verbatim>\<open>f"battery_{battery_idx+1}_charge"\<close>, for either label.\<close>

definition battery_key :: "nat \<Rightarrow> string \<Rightarrow> string" where
  "battery_key n label = ''battery_'' @ str_nat n @ ''_'' @ label"

section \<open>Loading\<close>

text \<open>
  The body of the innermost loop.  \<^verbatim>\<open>cycle["capacity"][0]\<close> is evaluated first; the
  dictionary display then evaluates its values in order, and each \<^verbatim>\<open>np.max\<close> raises on
  an empty signal.
\<close>

definition extract_features ::
  "rounding \<Rightarrow> string \<Rightarrow> nat \<Rightarrow> nat \<Rightarrow> mat_cycle \<Rightarrow> py_error + cycle_features" where
  "extract_features rnd label b_idx c_idx cycle =
     (let time = relative_time_min cycle; current = current_A cycle;
          voltage = voltage_V cycle; temperature = temperature_C cycle
      in case capacity_array cycle of
           [] \<Rightarrow> Inl IndexError
         | cap # _ \<Rightarrow>
      (case np_max time of Inl e \<Rightarrow> Inl e | Inr tmax \<Rightarrow>
      (case np_max current of Inl e \<Rightarrow> Inl e | Inr cmax \<Rightarrow>
      (case np_max voltage of Inl e \<Rightarrow> Inl e | Inr vmax \<Rightarrow>
      (case np_max temperature of Inl e \<Rightarrow> Inl e | Inr temax \<Rightarrow>
         Inr \<lparr>battery_id = b_idx + 1,
              cycle_type = label,
              cycle_idx = c_idx,
              time_mean = np_mean rnd time,
              time_max = tmax,
              current_mean = np_mean rnd current,
              current_max = cmax,
              voltage_mean = np_mean rnd voltage,
              voltage_max = vmax,
              temperature_mean = np_mean rnd temperature,
              temperature_max = temax,
              capacity = cap\<rparr>)))))"

text \<open>\<^verbatim>\<open>for cycle_idx in range(battery_cycles.shape[1])\<close>, from \<open>c_idx\<close> on.\<close>

fun cycle_loop ::
  "rounding \<Rightarrow> string \<Rightarrow> nat \<Rightarrow> nat \<Rightarrow> mat_cycle list \<Rightarrow> battery_group \<Rightarrow> py_error + battery_group"
  where
  "cycle_loop rnd label b_idx c_idx [] g = Inr g"
| "cycle_loop rnd label b_idx c_idx (cycle # rest) g =
     (case extract_features rnd label b_idx c_idx cycle of
        Inl e \<Rightarrow> Inl e
      | Inr f \<Rightarrow>
          cycle_loop rnd label b_idx (Suc c_idx) rest
            \<lparr>cycles = cycles g @ [f], capacities = capacities g @ [capacity f]\<rparr>)"

text \<open>\<^verbatim>\<open>for battery_idx in range(battery.shape[1])\<close>, from \<open>b_idx\<close> on.\<close>

fun battery_loop ::
  "rounding \<Rightarrow> string \<Rightarrow> nat \<Rightarrow> battery list \<Rightarrow> explorer \<Rightarrow> py_error + explorer" where
  "battery_loop rnd label b_idx [] self = Inr self"
| "battery_loop rnd label b_idx (battery_cycles # rest) self =
     (case cycle_loop rnd label b_idx 0 battery_cycles \<lparr>cycles = [], capacities = []\<rparr> of
        Inl e \<Rightarrow> Inl e
      | Inr g \<Rightarrow>
          battery_loop rnd label (Suc b_idx) rest
            \<lparr>battery_data = AList.update (battery_key (b_idx + 1) label) g (battery_data self),
             summary_data = summary_data self @ cycles g\<rparr>)"

text \<open>\<^verbatim>\<open>for file in charge_files\<close>.\<close>

fun file_loop :: "rounding \<Rightarrow> string \<Rightarrow> mat_file list \<Rightarrow> explorer \<Rightarrow> py_error + explorer" where
  "file_loop rnd label [] self = Inr self"
| "file_loop rnd label (battery # rest) self =
     (case battery_loop rnd label 0 battery self of
        Inl e \<Rightarrow> Inl e
      | Inr self' \<Rightarrow> file_loop rnd label rest self')"

definition load_charge_data :: "rounding \<Rightarrow> filesystem \<Rightarrow> explorer \<Rightarrow> py_error + explorer" where
  "load_charge_data rnd fs self =
     (case charge fs of
        None \<Rightarrow> Inl FileNotFoundError
      | Some charge_files \<Rightarrow> file_loop rnd ''charge'' charge_files self)"

definition load_partial_charge_data ::
  "rounding \<Rightarrow> filesystem \<Rightarrow> explorer \<Rightarrow> py_error + explorer" where
  "load_partial_charge_data rnd fs self =
     (case partial_charge fs of
        None \<Rightarrow> Inl FileNotFoundError
      | Some partial_files \<Rightarrow> file_loop rnd ''partial_charge'' partial_files self)"


section \<open>Data frames\<close>

text \<open>
  A pandas \<^verbatim>\<open>DataFrame\<close>: its column labels and its rows, every row with one value per
  column.  Built from a list of dictionaries it takes their keys as columns; an empty
  list gives a frame without columns.
\<close>

record dataframe =
  columns :: "string list"
  rows :: "pyval list list"

definition feature_keys :: "string list" where
  "feature_keys =
     [''battery_id'', ''cycle_type'', ''cycle_idx'', ''time_mean'', ''time_max'',
      ''current_mean'', ''current_max'', ''voltage_mean'', ''voltage_max'',
      ''temperature_mean'', ''temperature_max'', ''capacity'']"

definition feature_values :: "cycle_features \<Rightarrow> pyval list" where
  "feature_values r =
     [PyInt (battery_id r), PyStr (cycle_type r), PyInt (cycle_idx r),
      PyFloat (time_mean r), PyFloat (time_max r),
      PyFloat (current_mean r), PyFloat (current_max r),
      PyFloat (voltage_mean r), PyFloat (voltage_max r),
      PyFloat (temperature_mean r), PyFloat (temperature_max r), capacity r]"

definition DataFrame :: "cycle_features list \<Rightarrow> dataframe" where
  "DataFrame data =
     \<lparr>columns = (if data = [] then [] else feature_keys), rows = map feature_values data\<rparr>"

fun index_of :: "'a \<Rightarrow> 'a list \<Rightarrow> nat option" where
  "index_of a [] = None"
| "index_of a (x # xs) = (if x = a then Some 0 else map_option Suc (index_of a xs))"

text \<open>\<^verbatim>\<open>df[name]\<close> raises KeyError on a label that is no column.\<close>

definition df_getitem :: "dataframe \<Rightarrow> string \<Rightarrow> py_error + pyval list" where
  "df_getitem df name =
     (case index_of name (columns df) of
        None \<Rightarrow> Inl KeyError
      | Some i \<Rightarrow> Inr (map (\<lambda>row. row ! i) (rows df)))"

text \<open>\<^verbatim>\<open>df[name] = series\<close>: a new label is appended as the last column.\<close>

definition df_setitem :: "dataframe \<Rightarrow> string \<Rightarrow> pyval list \<Rightarrow> dataframe" where
  "df_setitem df name series =
     (case index_of name (columns df) of
        None \<Rightarrow>
          \<lparr>columns = columns df @ [name],
           rows = map (\<lambda>(row, v). row @ [v]) (zip (rows df) series)\<rparr>
      | Some i \<Rightarrow>
          \<lparr>columns = columns df,
           rows = map (\<lambda>(row, v). row[i := v]) (zip (rows df) series)\<rparr>)"

definition remove_nth :: "nat \<Rightarrow> 'a list \<Rightarrow> 'a list" where
  "remove_nth i xs = take i xs @ drop (Suc i) xs"

text \<open>\<^verbatim>\<open>df.drop(columns=[name])\<close> raises KeyError on a label that is no column.\<close>

definition df_drop :: "dataframe \<Rightarrow> string \<Rightarrow> py_error + dataframe" where
  "df_drop df name =
     (case index_of name (columns df) of
        None \<Rightarrow> Inl KeyError
      | Some i \<Rightarrow>
          Inr \<lparr>columns = remove_nth i (columns df), rows = map (remove_nth i) (rows df)\<rparr>)"

text \<open>\<^verbatim>\<open>series.apply(f)\<close>: the first exception of \<open>f\<close> ends it.\<close>

fun series_apply :: "('a \<Rightarrow> py_error + 'b) \<Rightarrow> 'a list \<Rightarrow> py_error + 'b list" where
  "series_apply f [] = Inr []"
| "series_apply f (x # xs) =
     (case f x of
        Inl e \<Rightarrow> Inl e
      | Inr y \<Rightarrow> (case series_apply f xs of Inl e \<Rightarrow> Inl e | Inr ys \<Rightarrow> Inr (y # ys)))"

text \<open>\<^verbatim>\<open>lambda x: x[0] if isinstance(x, np.ndarray) else x\<close>\<close>

fun flatten :: "pyval \<Rightarrow> py_error + pyval" where
  "flatten (NdArray []) = Inl IndexError"
| "flatten (NdArray (x # xs)) = Inr (PyFloat x)"
| "flatten v = Inr v"

text \<open>The entries of a numeric array as \<^verbatim>\<open>float64\<close>; numpy does no arithmetic on the rest.\<close>

fun as_float :: "pyval \<Rightarrow> py_error + float64" where
  "as_float (PyFloat a) = Inr a"
| "as_float (PyInt n) = Inr (Fin (real n))"
| "as_float v = Inl TypeError"

subsection \<open>Writing CSV\<close>

fun join :: "string \<Rightarrow> string list \<Rightarrow> string" where
  "join sep [] = []"
| "join sep [x] = x"
| "join sep (x # y # ys) = x @ sep @ join sep (y # ys)"

text \<open>
  The text of a value in a CSV file; \<open>fmt\<close> is the formatting of a \<^verbatim>\<open>float64\<close>.  (Strings are
  written as they are: the two labels of the program need no quoting.)
\<close>

fun render :: "(float64 \<Rightarrow> string) \<Rightarrow> pyval \<Rightarrow> string" where
  "render fmt (PyInt n) = str_nat n"
| "render fmt (PyStr s) = s"
| "render fmt (PyFloat a) = fmt a"
| "render fmt (NdArray xs) = ''['' @ join '' '' (map fmt xs) @ '']''"

definition csv_line :: "string list \<Rightarrow> string" where
  "csv_line cells = join '','' cells @ [CHR 0x0A]"

text \<open>\<^verbatim>\<open>df.to_csv(path, index=False)\<close>: the header, then the rows in their order.\<close>

definition to_csv :: "(float64 \<Rightarrow> string) \<Rightarrow> dataframe \<Rightarrow> string" where
  "to_csv fmt df = concat (csv_line (columns df) # map (\<lambda>row. csv_line (map (render fmt) row)) (rows df))"

section \<open>Summarizing\<close>

record group_stats =
  g_mean :: float64
  g_min :: float64
  g_max :: float64
  g_std :: float64

text \<open>
  \<^verbatim>\<open>groupby(key)[column].agg(["mean", "min", "max", "std"])\<close>: one row for each distinct
  key, the keys sorted.
\<close>

definition group_of :: "string \<Rightarrow> string list \<Rightarrow> 'a list \<Rightarrow> 'a list" where
  "group_of k keys vals = map snd (filter (\<lambda>kv. fst kv = k) (zip keys vals))"

definition groupby_agg ::
  "rounding \<Rightarrow> string list \<Rightarrow> float64 list \<Rightarrow> (string \<times> group_stats) list" where
  "groupby_agg rnd keys vals =
     map (\<lambda>k. let g = group_of k keys vals
              in (k, \<lparr>g_mean = pd_mean rnd g, g_min = pd_min g, g_max = pd_max g,
                      g_std = pd_std rnd g\<rparr>))
         (sort (remdups keys))"

text \<open>\<^verbatim>\<open>grouped_stats.to_csv(path)\<close>: the index column first.\<close>

definition grouped_to_csv :: "(float64 \<Rightarrow> string) \<Rightarrow> (string \<times> group_stats) list \<Rightarrow> string" where
  "grouped_to_csv fmt grouped =
     concat (csv_line [''cycle_type'', ''mean'', ''min'', ''max'', ''std'']
             # map (\<lambda>(k, g). csv_line [k, fmt (g_mean g), fmt (g_min g), fmt (g_max g),
                                          fmt (g_std g)]) grouped)"

text \<open>What \<open>summarize_dataset\<close> prints, and the frame it saves.\<close>

record report =
  total_batteries :: nat
  total_cycles :: nat
  capacity_mean :: float64
  capacity_min :: float64
  capacity_max :: float64
  capacity_std :: float64
  grouped_stats :: "(string \<times> group_stats) list"
  summary_df :: dataframe

definition summarize_dataset ::
  "rounding \<Rightarrow> (float64 \<Rightarrow> string) \<Rightarrow> explorer \<Rightarrow> filesystem \<Rightarrow> py_error + report \<times> filesystem"
  where
  "summarize_dataset rnd fmt self fs =
     (let df = DataFrame (summary_data self)
      in case df_getitem df ''capacity'' of Inl e \<Rightarrow> Inl e | Inr capacity_column \<Rightarrow>
        (case series_apply flatten capacity_column of Inl e \<Rightarrow> Inl e | Inr flattened \<Rightarrow>
        (case series_apply as_float flattened of Inl e \<Rightarrow> Inl e | Inr all_capacities \<Rightarrow>
        (case np_min all_capacities of Inl e \<Rightarrow> Inl e | Inr cap_min \<Rightarrow>
        (case np_max all_capacities of Inl e \<Rightarrow> Inl e | Inr cap_max \<Rightarrow>
        (case df_drop (df_setitem df ''flattened_capacity'' flattened) ''capacity'' of
           Inl e \<Rightarrow> Inl e
         | Inr df' \<Rightarrow>
             (let grouped = groupby_agg rnd (map cycle_type (summary_data self)) all_capacities
              in Inr (\<lparr>total_batteries = length (battery_data self),
                        total_cycles = length (summary_data self),
                        capacity_mean = np_mean rnd all_capacities,
                        capacity_min = cap_min,
                        capacity_max = cap_max,
                        capacity_std = np_std rnd all_capacities,
                        grouped_stats = grouped,
                        summary_df = df'\<rparr>,
                      fs\<lparr>output_dir :=
                           (output_dir fs)
                             (''battery_cycle_summary.csv'' \<mapsto> to_csv fmt df',
                              ''battery_cycle_type_summary.csv'' \<mapsto> grouped_to_csv fmt grouped)\<rparr>))))))))"

text \<open>\<open>main\<close>: a fresh explorer, both loads, the summary.\<close>

definition main :: "rounding \<Rightarrow> (float64 \<Rightarrow> string) \<Rightarrow> filesystem \<Rightarrow> py_error + report \<times> filesystem"
  where
  "main rnd fmt fs =
     (case load_charge_data rnd fs init of Inl e \<Rightarrow> Inl e | Inr self1 \<Rightarrow>
     (case load_partial_charge_data rnd fs self1 of Inl e \<Rightarrow> Inl e | Inr self2 \<Rightarrow>
        summarize_dataset rnd fmt self2 fs))"

section \<open>Notions used to state the properties\<close>

text \<open>
  The cycles of the batteries \<open>bs\<close> (the first one at index \<open>b\<close>) and of a list of files,
  each with its battery index and its cycle index, in the order the loops visit them:
  file by file, battery by battery, cycle by cycle.
\<close>

definition battery_order :: "nat \<Rightarrow> battery list \<Rightarrow> (nat \<times> nat \<times> mat_cycle) list" where
  "battery_order b bs =
     concat (map (\<lambda>(i, cs). map (\<lambda>(c, cy). (i, c, cy)) (enumerate 0 cs)) (enumerate b bs))"

definition source_order :: "mat_file list \<Rightarrow> (nat \<times> nat \<times> mat_cycle) list" where
  "source_order files = concat (map (battery_order 0) files)"

text \<open>The record \<open>f\<close> is the one the loop body builds from the cycle \<open>cy\<close> at these indices.\<close>

definition extracted ::
  "rounding \<Rightarrow> string \<Rightarrow> nat \<times> nat \<times> mat_cycle \<Rightarrow> cycle_features \<Rightarrow> bool" where
  "extracted rnd label src f =
     (case src of (b, c, cy) \<Rightarrow> extract_features rnd label b c cy = Inr f)"

text \<open>Some signal of the cycle has no sample.\<close>

definition empty_signal :: "mat_cycle \<Rightarrow> bool" where
  "empty_signal cy \<longleftrightarrow>
     relative_time_min cy = [] \<or> current_A cy = [] \<or> voltage_V cy = [] \<or> temperature_C cy = []"

section \<open>Example inputs\<close>

text \<open>A cycle whose time signal has no sample, alone in the only file of \<^verbatim>\<open>charge/\<close>.\<close>

definition cycle_no_time :: mat_cycle where
  "cycle_no_time = \<lparr>relative_time_min = [], current_A = [Fin 1], voltage_V = [Fin 1],
     temperature_C = [Fin 1], capacity_array = [NdArray [Fin 1]]\<rparr>"

definition fs_no_time :: filesystem where
  "fs_no_time =
     \<lparr>charge = Some [[[cycle_no_time]]], partial_charge = Some [], output_dir = Map.empty\<rparr>"

text \<open>The number a finite value stands for.\<close>

definition the_fin :: "float64 \<Rightarrow> real" where
  "the_fin a = (case a of Fin x \<Rightarrow> x | _ \<Rightarrow> 0)"

text \<open>
  The \<^verbatim>\<open>float64\<close> nearest to one tenth, and a cycle all of whose signals hold it three times.
\<close>

definition tenth :: real where
  "tenth = 7205759403792794 / 2 ^ 56"


text \<open>A cycle with one sample in each signal.\<close>

definition cycle_one :: mat_cycle where
  "cycle_one = \<lparr>relative_time_min = [Fin 2], current_A = [Fin 1], voltage_V = [Fin 4],
     temperature_C = [Fin 25], capacity_array = [NdArray [Fin 1]]\<rparr>"

section \<open>Notions about the battery dictionary\<close>

text \<open>The sum, over the entries of \<open>battery_data\<close>, of the number of cycles of the entry.\<close>

definition group_cycles :: "explorer \<Rightarrow> nat" where
  "group_cycles self = sum_list (map (\<lambda>(k, g). length (cycles g)) (battery_data self))"

text \<open>
  The group \<open>g\<close> is the one the loops build from the cycles \<open>cs\<close> of the battery at index
  \<open>b\<close>: record \<open>i\<close> of the group comes from cycle \<open>i\<close> of the battery.
\<close>

definition group_of_battery ::
  "rounding \<Rightarrow> string \<Rightarrow> nat \<Rightarrow> battery \<Rightarrow> battery_group \<Rightarrow> bool" where
  "group_of_battery rnd label b cs g \<longleftrightarrow>
     length (cycles g) = length cs \<and>
     (\<forall>i<length cs. extract_features rnd label b i (cs ! i) = Inr (cycles g ! i)) \<and>
     capacities g = map capacity (cycles g)"

text \<open>
  The pairs of a battery position (counted from 1) and the label for which some file of
  the directory holds a battery at that position.
\<close>

definition loaded_positions :: "string \<Rightarrow> mat_file list \<Rightarrow> (nat \<times> string) set" where
  "loaded_positions label files =
     (\<Union>mat\<in>set files. (\<lambda>n. (n, label)) ` {1..length mat})"

text \<open>The state of the explorer after one battery: the two statements that end the loop body.\<close>

definition store_battery :: "string \<Rightarrow> nat \<Rightarrow> battery_group \<Rightarrow> explorer \<Rightarrow> explorer" where
  "store_battery label b g self =
     \<lparr>battery_data = AList.update (battery_key (b + 1) label) g (battery_data self),
      summary_data = summary_data self @ cycles g\<rparr>"

text \<open>
  Two files in \<^verbatim>\<open>charge/\<close> and one in \<^verbatim>\<open>partial_charge/\<close>, each with one battery of one
  cycle; the record of that cycle, and the explorer after both loads.
\<close>

definition fs_two_files :: filesystem where
  "fs_two_files =
     \<lparr>charge = Some [[[cycle_one]], [[cycle_one]]], partial_charge = Some [[[cycle_one]]],
      output_dir = Map.empty\<rparr>"

definition record_one :: "string \<Rightarrow> cycle_features" where
  "record_one label =
     \<lparr>battery_id = 1, cycle_type = label, cycle_idx = 0,
      time_mean = Fin 2, time_max = Fin 2, current_mean = Fin 1, current_max = Fin 1,
      voltage_mean = Fin 4, voltage_max = Fin 4, temperature_mean = Fin 25,
      temperature_max = Fin 25, capacity = NdArray [Fin 1]\<rparr>"

definition group_one :: "string \<Rightarrow> battery_group" where
  "group_one label = \<lparr>cycles = [record_one label], capacities = [NdArray [Fin 1]]\<rparr>"

definition self_two_files_charge :: explorer where
  "self_two_files_charge =
     \<lparr>battery_data = [(''battery_1_charge'', group_one ''charge'')],
      summary_data = [record_one ''charge'', record_one ''charge'']\<rparr>"

definition self_two_files :: explorer where
  "self_two_files =
     \<lparr>battery_data = [(''battery_1_charge'', group_one ''charge''),
                      (''battery_1_partial_charge'', group_one ''partial_charge'')],
      summary_data = [record_one ''charge'', record_one ''charge'',
                      record_one ''partial_charge'']\<rparr>"

text \<open>The same with one file in each directory.\<close>

definition fs_one_file :: filesystem where
  "fs_one_file =
     \<lparr>charge = Some [[[cycle_one]]], partial_charge = Some [[[cycle_one]]],
      output_dir = Map.empty\<rparr>"

definition self_one_file_charge :: explorer where
  "self_one_file_charge =
     \<lparr>battery_data = [(''battery_1_charge'', group_one ''charge'')],
      summary_data = [record_one ''charge'']\<rparr>"

definition self_one_file :: explorer where
  "self_one_file =
     \<lparr>battery_data = [(''battery_1_charge'', group_one ''charge''),
                      (''battery_1_partial_charge'', group_one ''partial_charge'')],
      summary_data = [record_one ''charge'', record_one ''partial_charge'']\<rparr>"

text \<open>The directory with the files \<open>files\<close> is the one loaded under the label \<open>label\<close>.\<close>

definition in_directory :: "filesystem \<Rightarrow> string \<Rightarrow> mat_file list \<Rightarrow> bool" where
  "in_directory fs label files \<longleftrightarrow>
     label = ''charge'' \<and> charge fs = Some files \<or>
     label = ''partial_charge'' \<and> partial_charge fs = Some files"

text \<open>The records of the summary list with a given battery identifier and cycle type.\<close>

definition records_of_group :: "nat \<Rightarrow> string \<Rightarrow> explorer \<Rightarrow> cycle_features list" where
  "records_of_group b t self =
     filter (\<lambda>f. battery_id f = b \<and> cycle_type f = t) (summary_data self)"

section \<open>Notions about the saved frame\<close>

text \<open>The columns of the frame that \<open>summarize_dataset\<close> saves, and the row of a record in it.\<close>

definition saved_columns :: "string list" where
  "saved_columns =
     [''battery_id'', ''cycle_type'', ''cycle_idx'', ''time_mean'', ''time_max'',
      ''current_mean'', ''current_max'', ''voltage_mean'', ''voltage_max'',
      ''temperature_mean'', ''temperature_max'', ''flattened_capacity'']"

definition saved_row :: "cycle_features \<Rightarrow> pyval \<Rightarrow> pyval list" where
  "saved_row r v =
     [PyInt (battery_id r), PyStr (cycle_type r), PyInt (cycle_idx r),
      PyFloat (time_mean r), PyFloat (time_max r),
      PyFloat (current_mean r), PyFloat (current_max r),
      PyFloat (voltage_mean r), PyFloat (voltage_max r),
      PyFloat (temperature_mean r), PyFloat (temperature_max r), v]"

text \<open>
  A summary list whose \<^verbatim>\<open>charge\<close> records have the capacities 10, 20, 30 and whose
  \<^verbatim>\<open>partial_charge\<close> records have the capacities 5, 5, 5, each stored as an array of length
  one.
\<close>

definition record_with :: "string \<Rightarrow> real \<Rightarrow> cycle_features" where
  "record_with label x = (record_one label)\<lparr>capacity := NdArray [Fin x]\<rparr>"

definition self_synthetic :: explorer where
  "self_synthetic =
     \<lparr>battery_data = [],
      summary_data =
        [record_with ''charge'' 10, record_with ''charge'' 20, record_with ''charge'' 30,
         record_with ''partial_charge'' 5, record_with ''partial_charge'' 5,
         record_with ''partial_charge'' 5]\<rparr>"

text \<open>
  The capacity of a record unwraps to a \<^verbatim>\<open>float64\<close> (it is a scalar or a non-empty array),
  and the value it unwraps to.
\<close>

definition flattens_to_float :: "cycle_features \<Rightarrow> bool" where
  "flattens_to_float r \<longleftrightarrow> (\<exists>a. flatten (capacity r) = Inr (PyFloat a))"

definition flat_capacity :: "cycle_features \<Rightarrow> float64" where
  "flat_capacity r = (case flatten (capacity r) of Inr (PyFloat a) \<Rightarrow> a | _ \<Rightarrow> NaN)"

text \<open>
  A formatting of \<^verbatim>\<open>float64\<close> values for the examples: one decimal digit, nothing for NaN.
\<close>

definition repr_demo :: "float64 \<Rightarrow> string" where
  "repr_demo a =
     (case a of
        NaN \<Rightarrow> []
      | PInf \<Rightarrow> ''inf''
      | NInf \<Rightarrow> ''-inf''
      | Fin x \<Rightarrow>
          (if x < 0 then ''-'' else []) @ str_nat (nat \<lfloor>\<bar>x\<bar>\<rfloor>) @ ''.'' @
          str_nat (nat \<lfloor>(\<bar>x\<bar> - of_int \<lfloor>\<bar>x\<bar>\<rfloor>) * 10\<rfloor>))"

text \<open>What \<open>main\<close> prints and saves for the input with one file in each directory.\<close>

definition report_one_file :: report where
  "report_one_file =
     \<lparr>total_batteries = 2, total_cycles = 2,
      capacity_mean = Fin 1, capacity_min = Fin 1, capacity_max = Fin 1, capacity_std = Fin 0,
      grouped_stats =
        [(''charge'', \<lparr>g_mean = Fin 1, g_min = Fin 1, g_max = Fin 1, g_std = NaN\<rparr>),
         (''partial_charge'', \<lparr>g_mean = Fin 1, g_min = Fin 1, g_max = Fin 1, g_std = NaN\<rparr>)],
      summary_df =
        \<lparr>columns = saved_columns,
         rows = [saved_row (record_one ''charge'') (PyFloat (Fin 1)),
                 saved_row (record_one ''partial_charge'') (PyFloat (Fin 1))]\<rparr>\<rparr>"

definition summary_csv_one_file :: string where
  "summary_csv_one_file =
     ''battery_id,cycle_type,cycle_idx,time_mean,time_max,current_mean,current_max,'' @
     ''voltage_mean,voltage_max,temperature_mean,temperature_max,flattened_capacity'' @
     [CHR 0x0A] @
     ''1,charge,0,2.0,2.0,1.0,1.0,4.0,4.0,25.0,25.0,1.0'' @ [CHR 0x0A] @
     ''1,partial_charge,0,2.0,2.0,1.0,1.0,4.0,4.0,25.0,25.0,1.0'' @ [CHR 0x0A]"

definition grouped_csv_one_file :: string where
  "grouped_csv_one_file =
     ''cycle_type,mean,min,max,std'' @ [CHR 0x0A] @
     ''charge,1.0,1.0,1.0,'' @ [CHR 0x0A] @
     ''partial_charge,1.0,1.0,1.0,'' @ [CHR 0x0A]"

definition out_one_file :: filesystem where
  "out_one_file =
     fs_one_file\<lparr>output_dir :=
       [''battery_cycle_summary.csv'' \<mapsto> summary_csv_one_file,
        ''battery_cycle_type_summary.csv'' \<mapsto> grouped_csv_one_file]\<rparr>"

text \<open>The same input with a file left in the output directory by an earlier run.\<close>

definition fs_one_file_stale :: filesystem where
  "fs_one_file_stale =
     fs_one_file\<lparr>output_dir := [''battery_cycle_summary.csv'' \<mapsto> ''stale'']\<rparr>"

section \<open>The two conventions for the standard deviation\<close>

text \<open>
  The formulas of the specification, over the real numbers: the mean, the population
  standard deviation (divide by \<open>N\<close>) and the sample standard deviation (divide by
  \<open>N - 1\<close>).
\<close>

definition mean_of :: "real list \<Rightarrow> real" where
  "mean_of xs = sum_list xs / real (length xs)"

definition population_std :: "real list \<Rightarrow> real" where
  "population_std xs = sqrt ((\<Sum>x\<leftarrow>xs. (x - mean_of xs)\<^sup>2) / real (length xs))"

definition sample_std :: "real list \<Rightarrow> real" where
  "sample_std xs = sqrt ((\<Sum>x\<leftarrow>xs. (x - mean_of xs)\<^sup>2) / (real (length xs) - 1))"

text \<open>
  The capacities of the summary list as real numbers, all of them and those of the records
  of one cycle type.
\<close>

definition all_capacity_values :: "explorer \<Rightarrow> real list" where
  "all_capacity_values self = map (\<lambda>r. the_fin (flat_capacity r)) (summary_data self)"

definition group_capacity_values :: "string \<Rightarrow> explorer \<Rightarrow> real list" where
  "group_capacity_values t self =
     map (\<lambda>r. the_fin (flat_capacity r)) (filter (\<lambda>r. cycle_type r = t) (summary_data self))"

text \<open>The capacity of a record unwraps to a finite \<^verbatim>\<open>float64\<close>.\<close>

definition finite_capacity :: "cycle_features \<Rightarrow> bool" where
  "finite_capacity r \<longleftrightarrow> (\<exists>x. flatten (capacity r) = Inr (PyFloat (Fin x)))"

section \<open>Further example inputs\<close>

text \<open>
  A cycle with several samples in its signals, and the record the loop body builds from it
  as the cycle with index \<open>c\<close> of the first battery of a file.
\<close>

definition cycle_two :: mat_cycle where
  "cycle_two = \<lparr>relative_time_min = [Fin 1, Fin 2, Fin 3], current_A = [Fin 2, Fin 4],
     voltage_V = [Fin 3], temperature_C = [Fin 20, Fin 30], capacity_array = [NdArray [Fin 1]]\<rparr>"

definition record_two :: "string \<Rightarrow> nat \<Rightarrow> cycle_features" where
  "record_two label c =
     \<lparr>battery_id = 1, cycle_type = label, cycle_idx = c,
      time_mean = Fin 2, time_max = Fin 3, current_mean = Fin 3, current_max = Fin 4,
      voltage_mean = Fin 3, voltage_max = Fin 3, temperature_mean = Fin 25,
      temperature_max = Fin 30, capacity = NdArray [Fin 1]\<rparr>"

text \<open>
  One file in each directory.  The file of \<^verbatim>\<open>charge/\<close> has two batteries, the first with
  two cycles; the file of \<^verbatim>\<open>partial_charge/\<close> has one battery with two cycles.  The
  explorer after each load.
\<close>

definition fs_two_cycles :: filesystem where
  "fs_two_cycles =
     \<lparr>charge = Some [[[cycle_one, cycle_two], [cycle_two]]],
      partial_charge = Some [[[cycle_two, cycle_one]]],
      output_dir = Map.empty\<rparr>"

definition self_two_cycles_charge :: explorer where
  "self_two_cycles_charge =
     \<lparr>battery_data =
        [(''battery_1_charge'',
          \<lparr>cycles = [record_one ''charge'', record_two ''charge'' 1],
           capacities = [NdArray [Fin 1], NdArray [Fin 1]]\<rparr>),
         (''battery_2_charge'',
          \<lparr>cycles = [(record_two ''charge'' 0)\<lparr>battery_id := 2\<rparr>],
           capacities = [NdArray [Fin 1]]\<rparr>)],
      summary_data =
        [record_one ''charge'', record_two ''charge'' 1,
         (record_two ''charge'' 0)\<lparr>battery_id := 2\<rparr>]\<rparr>"

definition self_two_cycles :: explorer where
  "self_two_cycles =
     \<lparr>battery_data =
        [(''battery_1_charge'',
          \<lparr>cycles = [record_one ''charge'', record_two ''charge'' 1],
           capacities = [NdArray [Fin 1], NdArray [Fin 1]]\<rparr>),
         (''battery_2_charge'',
          \<lparr>cycles = [(record_two ''charge'' 0)\<lparr>battery_id := 2\<rparr>],
           capacities = [NdArray [Fin 1]]\<rparr>),
         (''battery_1_partial_charge'',
          \<lparr>cycles = [record_two ''partial_charge'' 0,
                     (record_one ''partial_charge'')\<lparr>cycle_idx := 1\<rparr>],
           capacities = [NdArray [Fin 1], NdArray [Fin 1]]\<rparr>)],
      summary_data =
        [record_one ''charge'', record_two ''charge'' 1,
         (record_two ''charge'' 0)\<lparr>battery_id := 2\<rparr>,
         record_two ''partial_charge'' 0,
         (record_one ''partial_charge'')\<lparr>cycle_idx := 1\<rparr>]\<rparr>"

text \<open>
  Two different files in \<^verbatim>\<open>charge/\<close>, each with one battery of one cycle, and one file in
  \<^verbatim>\<open>partial_charge/\<close>; the explorer after each load.
\<close>

definition fs_later_file :: filesystem where
  "fs_later_file =
     \<lparr>charge = Some [[[cycle_one]], [[cycle_two]]], partial_charge = Some [[[cycle_one]]],
      output_dir = Map.empty\<rparr>"

definition group_two :: "string \<Rightarrow> battery_group" where
  "group_two label = \<lparr>cycles = [record_two label 0], capacities = [NdArray [Fin 1]]\<rparr>"

definition self_later_file_charge :: explorer where
  "self_later_file_charge =
     \<lparr>battery_data = [(''battery_1_charge'', group_two ''charge'')],
      summary_data = [record_one ''charge'', record_two ''charge'' 0]\<rparr>"

definition self_later_file :: explorer where
  "self_later_file =
     \<lparr>battery_data = [(''battery_1_charge'', group_two ''charge''),
                      (''battery_1_partial_charge'', group_one ''partial_charge'')],
      summary_data = [record_one ''charge'', record_two ''charge'' 0,
                      record_one ''partial_charge'']\<rparr>"

text \<open>The mean of the samples of a signal over the real numbers, for finite samples.\<close>

definition real_mean :: "float64 list \<Rightarrow> float64" where
  "real_mean xs = Fin (mean_of (map the_fin xs))"

text \<open>Cycles whose time signal holds a NaN, and the two infinities.\<close>

definition cycle_nan :: mat_cycle where
  "cycle_nan = cycle_one\<lparr>relative_time_min := [Fin 1, NaN]\<rparr>"

definition cycle_inf :: mat_cycle where
  "cycle_inf = cycle_one\<lparr>relative_time_min := [PInf, NInf]\<rparr>"

text \<open>
  Summary lists for the standard deviations: three \<^verbatim>\<open>charge\<close> records with the capacity
  0.1; \<^verbatim>\<open>charge\<close> records with the capacities 14, 20, 26 and \<^verbatim>\<open>partial_charge\<close> records
  with the capacities 16, 16, 16; and \<^verbatim>\<open>charge\<close> records with the capacities NaN, 10, 20,
  30.
\<close>

definition self_tenths :: explorer where
  "self_tenths =
     \<lparr>battery_data = [],
      summary_data =
        [record_with ''charge'' tenth, record_with ''charge'' tenth,
         record_with ''charge'' tenth]\<rparr>"

definition self_conventions :: explorer where
  "self_conventions =
     \<lparr>battery_data = [],
      summary_data =
        [record_with ''charge'' 14, record_with ''charge'' 20, record_with ''charge'' 26,
         record_with ''partial_charge'' 16, record_with ''partial_charge'' 16,
         record_with ''partial_charge'' 16]\<rparr>"

definition self_nan :: explorer where
  "self_nan =
     \<lparr>battery_data = [],
      summary_data =
        [(record_one ''charge'')\<lparr>capacity := NdArray [NaN]\<rparr>, record_with ''charge'' 10,
         record_with ''charge'' 20, record_with ''charge'' 30]\<rparr>"

section \<open>The loops of the loaders\<close>

lemma init_empty [simp]: "battery_data init = []" "summary_data init = []" "group_cycles init = 0"
  by (simp_all add: init_def group_cycles_def)

lemma extracted_iff [simp]:
  "extracted rnd label (b, c, cy) f \<longleftrightarrow> extract_features rnd label b c cy = Inr f"
  by (simp add: extracted_def)

lemma cycle_loop_Inr:
  "cycle_loop rnd label b c cs g = Inr g' \<Longrightarrow>
     \<exists>fs. cycles g' = cycles g @ fs \<and> capacities g' = capacities g @ map capacity fs \<and>
          list_all2 (extracted rnd label) (map (\<lambda>(c, cy). (b, c, cy)) (enumerate c cs)) fs"
proof (induction cs arbitrary: c g)
  case Nil
  then show ?case by simp
next
  case (Cons cy cs)
  from Cons.prems obtain f where f: "extract_features rnd label b c cy = Inr f"
    and rest: "cycle_loop rnd label b (Suc c) cs
        \<lparr>cycles = cycles g @ [f], capacities = capacities g @ [capacity f]\<rparr> = Inr g'"
    by (auto split: sum.splits)
  from Cons.IH[OF rest] obtain fs where fs: "cycles g' = (cycles g @ [f]) @ fs"
    "capacities g' = (capacities g @ [capacity f]) @ map capacity fs"
    "list_all2 (extracted rnd label) (map (\<lambda>(c, cy). (b, c, cy)) (enumerate (Suc c) cs)) fs"
    by auto
  show ?case
    apply (rule exI[where x = "f # fs"])
    using fs f by simp
qed

lemma battery_loop_summary:
  "battery_loop rnd label b bs st = Inr st' \<Longrightarrow>
     \<exists>fs. summary_data st' = summary_data st @ fs \<and>
          list_all2 (extracted rnd label) (battery_order b bs) fs"
proof (induction bs arbitrary: b st)
  case Nil
  then show ?case by (simp add: battery_order_def)
next
  case (Cons cs bs)
  from Cons.prems obtain g
    where g: "cycle_loop rnd label b 0 cs \<lparr>cycles = [], capacities = []\<rparr> = Inr g"
    and rest: "battery_loop rnd label (Suc b) bs
            \<lparr>battery_data = AList.update (battery_key (b + 1) label) g (battery_data st),
             summary_data = summary_data st @ cycles g\<rparr> = Inr st'"
    by (auto split: sum.splits)
  from cycle_loop_Inr[OF g] have g2:
    "list_all2 (extracted rnd label) (map (\<lambda>(c, cy). (b, c, cy)) (enumerate 0 cs)) (cycles g)"
    by auto
  from Cons.IH[OF rest] obtain fs where fs: "summary_data st' = (summary_data st @ cycles g) @ fs"
    "list_all2 (extracted rnd label) (battery_order (Suc b) bs) fs" by auto
  show ?case
    apply (rule exI[where x = "cycles g @ fs"])
    using fs g2 by (simp add: battery_order_def list_all2_appendI)
qed

lemma file_loop_summary:
  "file_loop rnd label files st = Inr st' \<Longrightarrow>
     \<exists>fs. summary_data st' = summary_data st @ fs \<and>
          list_all2 (extracted rnd label) (source_order files) fs"
proof (induction files arbitrary: st)
  case Nil
  then show ?case by (simp add: source_order_def)
next
  case (Cons mat files)
  from Cons.prems obtain st1 where s1: "battery_loop rnd label 0 mat st = Inr st1"
    and rest: "file_loop rnd label files st1 = Inr st'"
    by (auto split: sum.splits)
  from battery_loop_summary[OF s1] obtain fs1
    where fs1: "summary_data st1 = summary_data st @ fs1"
      "list_all2 (extracted rnd label) (battery_order 0 mat) fs1" by auto
  from Cons.IH[OF rest] obtain fs where fs: "summary_data st' = summary_data st1 @ fs"
    "list_all2 (extracted rnd label) (source_order files) fs" by auto
  show ?case
    apply (rule exI[where x = "fs1 @ fs"])
    using fs fs1 by (simp add: source_order_def list_all2_appendI)
qed

section \<open>Arithmetic\<close>

lemma finite_list_map_Fin:
  "(\<forall>x\<in>set xs. isfinite x) \<Longrightarrow> xs = map Fin (map the_fin xs)"
  by (induction xs) (auto simp: isfinite_def the_fin_def split: float64.splits)

lemma foldl_fadd_exact:
  "foldl (fadd exact) (Fin a) (map Fin ys) = Fin (a + sum_list ys)"
  by (induction ys arbitrary: a) (simp_all add: exact_def add.assoc)

lemma sum_list_map2_add:
  fixes r :: "real list"
  shows "length r = length ys \<Longrightarrow> sum_list (map2 (+) r ys) = sum_list r + sum_list ys"
  by (induction r ys rule: list_induct2) simp_all

lemma sum_list_take_drop:
  fixes ys :: "real list"
  shows "sum_list (take n ys) + sum_list (drop n ys) = sum_list ys"
  using sum_list_append[of "take n ys" "drop n ys"] by simp

lemma combine_sums_exact:
  "length r = 8 \<Longrightarrow> combine_sums exact (map Fin r) = Fin (sum_list r)"
proof -
  assume "length r = 8"
  then obtain a b c d e f g h where "r = [a, b, c, d, e, f, g, h]"
    by (auto simp: length_Suc_conv numeral_eq_Suc)
  then show ?thesis by (simp add: combine_sums_def exact_def)
qed

lemma unrolled_sums_exact:
  "length r = 8 \<Longrightarrow>
     \<exists>r' rest. unrolled_sums exact (map Fin r) (map Fin ys) = (map Fin r', map Fin rest) \<and>
        length r' = 8 \<and> sum_list r' + sum_list rest = sum_list r + sum_list ys"
proof (induction "length ys" arbitrary: r ys rule: less_induct)
  case less
  show ?case
  proof (cases "length ys < 8")
    case True
    have "unrolled_sums exact (map Fin r) (map Fin ys) = (map Fin r, map Fin ys)"
      using True by (subst unrolled_sums.simps) simp
    then show ?thesis using less.prems by blast
  next
    case False
    let ?r = "map2 (+) r (take 8 ys)"
    have l: "length ?r = 8" using less.prems False by simp
    have m: "map2 (fadd exact) (map Fin r) (take 8 (map Fin ys)) = map Fin ?r"
      by (simp add: take_map zip_map1 zip_map2 exact_def split_def o_def)
    have s: "sum_list ?r = sum_list r + sum_list (take 8 ys)"
      using less.prems False by (intro sum_list_map2_add) simp
    have d: "length (drop 8 ys) < length ys" using False by simp
    from less.hyps[OF d l] obtain r' rest where
      u: "unrolled_sums exact (map Fin ?r) (map Fin (drop 8 ys)) = (map Fin r', map Fin rest)"
      and r': "length r' = 8"
      and t: "sum_list r' + sum_list rest = sum_list ?r + sum_list (drop 8 ys)"
      by blast
    have "unrolled_sums exact (map Fin r) (map Fin ys) = (map Fin r', map Fin rest)"
      using False u by (subst unrolled_sums.simps) (simp add: m drop_map)
    moreover have "sum_list r' + sum_list rest = sum_list r + sum_list ys"
      using t s sum_list_take_drop[of 8 ys] by simp
    ultimately show ?thesis using r' by blast
  qed
qed

lemma pairwise_sum_exact: "pairwise_sum exact (map Fin ys) = Fin (sum_list ys)"
proof (induction "length ys" arbitrary: ys rule: less_induct)
  case less
  consider "length ys < 8" | "8 \<le> length ys" "length ys \<le> 128" | "128 < length ys" by linarith
  then show ?case
  proof cases
    case 1
    then show ?thesis by (subst pairwise_sum.simps) (simp add: foldl_fadd_exact)
  next
    case 2
    have l: "length (take 8 ys) = 8" using 2 by simp
    from unrolled_sums_exact[OF l, of "drop 8 ys"] obtain r' rest where
      u: "unrolled_sums exact (map Fin (take 8 ys)) (map Fin (drop 8 ys)) = (map Fin r', map Fin rest)"
      and r': "length r' = 8"
      and s: "sum_list r' + sum_list rest = sum_list (take 8 ys) + sum_list (drop 8 ys)"
      by blast
    from s have t: "sum_list r' + sum_list rest = sum_list ys"
      using sum_list_take_drop[of 8 ys] by simp
    have "pairwise_sum exact (map Fin ys) =
        foldl (fadd exact) (combine_sums exact (map Fin r')) (map Fin rest)"
      using 2 u by (subst pairwise_sum.simps) (simp add: take_map drop_map)
    also have "\<dots> = Fin (sum_list r' + sum_list rest)"
      by (simp only: combine_sums_exact[OF r'] foldl_fadd_exact)
    finally show ?thesis using t by simp
  next
    case 3
    define n2 where "n2 = length ys div 2 - length ys div 2 mod 8"
    have n2: "0 < n2" "n2 < length ys" using 3 unfolding n2_def by linarith+
    have a: "pairwise_sum exact (map Fin (take n2 ys)) = Fin (sum_list (take n2 ys))"
      using n2 by (intro less.hyps) simp
    have b: "pairwise_sum exact (map Fin (drop n2 ys)) = Fin (sum_list (drop n2 ys))"
      using n2 by (intro less.hyps) simp
    have "pairwise_sum exact (map Fin ys) =
        fadd exact (pairwise_sum exact (map Fin (take n2 ys)))
          (pairwise_sum exact (map Fin (drop n2 ys)))"
      using 3 by (subst pairwise_sum.simps) (simp add: Let_def n2_def take_map drop_map)
    then show ?thesis using sum_list_take_drop[of n2 ys] by (simp add: a b exact_def)
  qed
qed

lemma np_sum_exact: "np_sum exact (map Fin ys) = Fin (sum_list ys)"
  by (simp add: np_sum_def pairwise_sum_exact)

lemma np_sum_short: "length xs < 8 \<Longrightarrow> np_sum rnd xs = foldl (fadd rnd) (Fin 0) xs"
  by (simp add: np_sum_def pairwise_sum.simps)

lemma np_mean_exact:
  "ys \<noteq> [] \<Longrightarrow> np_mean exact (map Fin ys) = Fin (sum_list ys / real (length ys))"
  by (simp add: np_mean_def np_sum_exact exact_def)

lemma foldl_fmaximum_Fin:
  "foldl fmaximum (Fin y) (map Fin ys) = Fin (fold max ys y)"
proof (induction ys arbitrary: y)
  case Nil
  then show ?case by simp
next
  case (Cons z zs)
  have "fmaximum (Fin y) (Fin z) = Fin (max z y)"
    by (simp add: fmaximum_def isnan_def max_def)
  then show ?case using Cons.IH[of "max z y"] by simp
qed

lemma np_max_Fin:
  assumes "ys \<noteq> []"
  shows "np_max (map Fin ys) = Inr (Fin (Max (set ys)))"
proof (cases ys)
  case Nil
  then show ?thesis using assms by simp
next
  case (Cons a list)
  have "Max (set (a # list)) = fold max list a" by (rule Max.set_eq_fold)
  then show ?thesis unfolding Cons by (simp add: np_max_def foldl_fmaximum_Fin del: Max_insert)
qed

lemma sum_list_le_Max:
  fixes ys :: "real list"
  assumes "ys \<noteq> []"
  shows "sum_list ys / real (length ys) \<le> Max (set ys)"
proof -
  have "\<forall>y\<in>set ys. y \<le> Max (set ys)" by simp
  then have "sum_list ys \<le> real (length ys) * Max (set ys)"
    using sum_list_mono[of ys "\<lambda>y. y" "\<lambda>_. Max (set ys)"] by (simp add: sum_list_triv)
  moreover have "0 < real (length ys)" using assms by simp
  ultimately show ?thesis by (simp add: pos_divide_le_eq mult.commute)
qed


subsection \<open>Evaluating \<open>binary64\<close>\<close>

lemma floor_log2_eq:
  assumes "2 powi e \<le> x" "x < 2 powi (e + 1)"
  shows "\<lfloor>log 2 x\<rfloor> = e"
proof -
  have "(0::real) < 2 powi e" by simp
  then have pos: "0 < x" using assms(1) by linarith
  have "2 powr (real_of_int e) \<le> x" using assms(1) by (simp add: powr_real_of_int')
  moreover have "2 powr (real_of_int (e + 1)) = (2::real) powi (e + 1)"
    by (rule powr_real_of_int') simp_all
  then have "x < 2 powr (real_of_int e + 1)" using assms(2) by simp
  ultimately show ?thesis using pos by (simp add: floor_log_eq_powr_iff)
qed

lemma binary64_normal:
  assumes "2 powi e \<le> \<bar>x\<bar>" "\<bar>x\<bar> < 2 powi (e + 1)" "- 1022 \<le> e"
  shows "binary64 x =
     (let y = of_int (round_half_even (x / 2 powi (e - 52))) * 2 powi (e - 52)
      in if 2 ^ 1024 \<le> \<bar>y\<bar> then (if 0 < x then PInf else NInf) else Fin y)"
proof -
  have "\<lfloor>log 2 \<bar>x\<bar>\<rfloor> = e" using assms(1,2) by (rule floor_log2_eq)
  moreover have "(0::real) < 2 powi e" by simp
  then have "0 < \<bar>x\<bar>" using assms(1) by linarith
  then have "x \<noteq> 0" by simp
  ultimately show ?thesis using assms(3) by (simp add: binary64_def Let_def max_def)
qed

lemma tenth_add0: "fadd binary64 (Fin 0) (Fin tenth) = Fin tenth"
  apply (simp only: fadd.simps)
  apply (subst binary64_normal[where e = "-4"])
     apply (simp_all add: tenth_def power_int_minus round_half_even_def Let_def)
  done

lemma tenth_add1: "fadd binary64 (Fin tenth) (Fin tenth) = Fin (2 * tenth)"
  apply (simp only: fadd.simps)
  apply (subst binary64_normal[where e = "-3"])
     apply (simp_all add: tenth_def power_int_minus round_half_even_def Let_def)
  done

lemma tenth_add2: "fadd binary64 (Fin (2 * tenth)) (Fin tenth) = Fin (5404319552844596 / 2 ^ 54)"
  apply (simp only: fadd.simps)
  apply (subst binary64_normal[where e = "-2"])
     apply (simp_all add: tenth_def power_int_minus round_half_even_def Let_def)
  done

lemma tenth_div: "fdiv binary64 (Fin (5404319552844596 / 2 ^ 54)) (Fin (real 3)) = Fin (7205759403792795 / 2 ^ 56)"
  apply (simp only: fdiv.simps)
  apply (subst binary64_normal[where e = "-4"])
     apply (simp_all add: tenth_def power_int_minus round_half_even_def Let_def)
  done

lemma mean_tenths: "np_mean binary64 [Fin tenth, Fin tenth, Fin tenth] = Fin (7205759403792795 / 2 ^ 56)"
proof -
  have "np_sum binary64 [Fin tenth, Fin tenth, Fin tenth] =
      foldl (fadd binary64) (Fin 0) [Fin tenth, Fin tenth, Fin tenth]"
    by (rule np_sum_short) simp
  then have s: "np_sum binary64 [Fin tenth, Fin tenth, Fin tenth] = Fin (5404319552844596 / 2 ^ 54)"
    by (simp only: foldl.simps tenth_add0 tenth_add1 tenth_add2)
  have n: "Fin (real (length [Fin tenth, Fin tenth, Fin tenth])) = Fin (real 3)" by simp
  show ?thesis by (simp only: np_mean_def s n tenth_div)
qed



subsection \<open>\<open>binary64\<close> on integers\<close>

lemma round_half_even_of_int [simp]: "round_half_even (of_int k) = k"
  by (simp add: round_half_even_def)

lemma binary64_of_int:
  assumes "\<bar>n\<bar> \<le> 2 ^ 53"
  shows "binary64 (of_int n) = Fin (of_int n)"
proof (cases "n = 0")
  case True
  then show ?thesis by (simp add: binary64_def)
next
  case False
  define x :: real where "x = \<bar>of_int n\<bar>"
  define e where "e = \<lfloor>log 2 x\<rfloor>"
  have x1: "1 \<le> x" using False by (simp add: x_def)
  have x2: "x \<le> 2 ^ 53"
  proof -
    have "real_of_int \<bar>n\<bar> \<le> real_of_int (2 ^ 53)" using assms by (rule of_int_le_iff[THEN iffD2])
    then show ?thesis by (simp add: x_def)
  qed
  have e0: "0 \<le> e" unfolding e_def using x1 by simp
  have "log 2 x \<le> log 2 (2 ^ 53)" using x1 x2 by simp
  also have "\<dots> = 53" using log_pow_cancel[of 2 53] by simp
  finally have e53: "e \<le> 53" unfolding e_def by (simp add: floor_le_iff)
  have lo: "2 powi e \<le> x"
  proof -
    have "2 powr (real_of_int e) \<le> x"
      unfolding e_def using x1 by (intro powr_le_iff[THEN iffD2] ) (simp_all add: le_log_iff)
    then show ?thesis by (simp add: powr_real_of_int')
  qed
  have "\<exists>k. of_int n / 2 powi (e - 52) = real_of_int k"
  proof (cases "e \<le> 52")
    case True
    then have "(2::real) powi (e - 52) = inverse (2 ^ nat (52 - e))"
      by (simp add: power_int_def power_one_over inverse_eq_divide)
    then have "of_int n / 2 powi (e - 52) = real_of_int (n * 2 ^ nat (52 - e))"
      by (simp add: field_simps)
    then show ?thesis by blast
  next
    case False
    with e53 have e: "e = 53" by simp
    then have "2 ^ 53 \<le> x" using lo by simp
    with x2 have "x = 2 ^ 53" by simp
    then have "\<bar>n\<bar> = 2 ^ 53" unfolding x_def
      by (metis of_int_abs of_int_eq_iff of_int_numeral of_int_power)
    then have "even \<bar>n\<bar>" by simp
    then have "even n" by simp
    then have "n = 2 * (n div 2)" by simp
    then have "real_of_int n = 2 * real_of_int (n div 2)" by (metis of_int_mult of_int_numeral)
    then have "of_int n / 2 powi (e - 52) = real_of_int (n div 2)" using e by simp
    then show ?thesis by blast
  qed
  then obtain k where k: "of_int n / 2 powi (e - 52) = real_of_int k" by blast
  then have y: "of_int (round_half_even (of_int n / 2 powi (e - 52))) * 2 powi (e - 52) = real_of_int n"
    by (simp add: field_simps)
  have "\<bar>real_of_int n\<bar> < 2 ^ 1024"
  proof -
    have "(2::real) ^ 53 < 2 ^ 1024" by (rule power_strict_increasing) simp_all
    then show ?thesis using x2 by (simp add: x_def)
  qed
  then show ?thesis
    using False e0 y unfolding binary64_def
    by (simp add: Let_def max_def e_def[symmetric] x_def[symmetric] del: of_int_abs)
qed

lemma binary64_numeral [simp]:
  "numeral k \<le> (2::int) ^ 53 \<Longrightarrow> binary64 (numeral k) = Fin (numeral k)"
  using binary64_of_int[of "numeral k"] by simp

lemma binary64_0 [simp]: "binary64 0 = Fin 0"
  by (simp add: binary64_def)

lemma binary64_1 [simp]: "binary64 1 = Fin 1"
  using binary64_of_int[of 1] by simp

lemma binary64_neg_numeral [simp]:
  "numeral k \<le> (2::int) ^ 53 \<Longrightarrow> binary64 (- numeral k) = Fin (- numeral k)"
  using binary64_of_int[of "- numeral k"] by simp


subsection \<open>Values that \<open>binary64\<close> represents\<close>

lemma binary64_dyadic:
  assumes "\<bar>n\<bar> < 2 ^ 53" and "- 1074 \<le> e" and "e \<le> 970"
  shows "binary64 (of_int n * 2 powi e) = Fin (of_int n * 2 powi e)"
proof (cases "n = 0")
  case True
  then show ?thesis by (simp add: binary64_def)
next
  case False
  define x :: real where "x = of_int n * 2 powi e"
  define E where "E = max \<lfloor>log 2 \<bar>x\<bar>\<rfloor> (- 1022) - 52"
  have x0: "x \<noteq> 0" using False by (simp add: x_def)
  have ax: "\<bar>x\<bar> = \<bar>of_int n\<bar> * 2 powi e" by (simp add: x_def abs_mult)
  have "\<bar>real_of_int n\<bar> < 2 ^ 53"
  proof -
    have "real_of_int \<bar>n\<bar> < real_of_int (2 ^ 53)" using assms(1) by (rule of_int_less_iff[THEN iffD2])
    then show ?thesis by simp
  qed
  then have "\<bar>x\<bar> < 2 ^ 53 * 2 powi e" unfolding ax by simp
  also have "\<dots> = 2 powi (53 + e)" by (simp add: power_int_add)
  finally have up: "\<bar>x\<bar> < 2 powi (53 + e)" .
  have "log 2 \<bar>x\<bar> < real_of_int (53 + e)"
  proof -
    have "2 powr (real_of_int (53 + e)) = (2::real) powi (53 + e)"
      by (rule powr_real_of_int') simp_all
    then have "\<bar>x\<bar> < 2 powr (real_of_int (53 + e))" using up by simp
    then show ?thesis using x0 by (simp add: log_less_iff)
  qed
  then have "\<lfloor>log 2 \<bar>x\<bar>\<rfloor> < 53 + e" by (simp add: floor_less_iff)
  then have Ee: "E \<le> e" using assms(2) by (simp add: E_def)
  have "(2::real) powi e = 2 powi (e - E) * 2 powi E"
    by (simp add: power_int_add[symmetric])
  moreover have "(2::real) powi (e - E) = 2 ^ nat (e - E)" using Ee by (simp add: power_int_def)
  ultimately have "x / 2 powi E = real_of_int (n * 2 ^ nat (e - E))"
    by (simp add: x_def)
  then have y: "of_int (round_half_even (x / 2 powi E)) * 2 powi E = x"
    by (simp only: round_half_even_of_int) (simp add: field_simps)
  have "(2::real) powi (53 + e) \<le> 2 powi 1023" using assms(3) by (intro power_int_increasing) simp_all
  also have "\<dots> < 2 ^ 1024" by simp
  finally have "\<bar>x\<bar> < 2 ^ 1024" using up by linarith
  then show ?thesis
    using x0 y unfolding binary64_def x_def[symmetric]
    by (simp add: Let_def E_def[symmetric])
qed


lemma binary64_fraction:
  assumes "\<bar>n\<bar> < 2 ^ 53" and "k \<le> 1074"
  shows "binary64 (of_int n / 2 ^ k) = Fin (of_int n / 2 ^ k)"
proof -
  have "(2::real) powi (- int k) = 1 / 2 ^ k"
    by (simp add: power_int_minus inverse_eq_divide)
  then show ?thesis using binary64_dyadic[OF assms(1), of "- int k"] assms(2) by simp
qed

subsection \<open>The standard deviation of three samples equal to one tenth\<close>

lemma tenth_deviation:
  "fsub binary64 (Fin tenth) (Fin (7205759403792795 / 2 ^ 56)) = Fin (- 1 / 2 ^ 56)"
proof -
  have "tenth + - (7205759403792795 / 2 ^ 56) = of_int (- 1) / 2 ^ 56" by (simp add: tenth_def)
  then show ?thesis using binary64_fraction[of "- 1" 56] by (simp add: fsub_def)
qed

lemma tenth_square:
  "fmul binary64 (Fin (- 1 / 2 ^ 56)) (Fin (- 1 / 2 ^ 56)) = Fin (1 / 2 ^ 112)"
proof -
  have "(- 1 / 2 ^ 56) * (- 1 / 2 ^ 56) = (of_int 1 / 2 ^ 112 :: real)" by simp
  then show ?thesis using binary64_fraction[of 1 112] by (simp only: fmul.simps) simp
qed

lemma tenth_square_sum:
  "foldl (fadd binary64) (Fin 0) [Fin (1 / 2 ^ 112), Fin (1 / 2 ^ 112), Fin (1 / 2 ^ 112)] =
     Fin (3 / 2 ^ 112)"
proof -
  have a: "fadd binary64 (Fin 0) (Fin (1 / 2 ^ 112)) = Fin (1 / 2 ^ 112)"
    using binary64_fraction[of 1 112] by simp
  have "(1 / 2 ^ 112 + 1 / 2 ^ 112 :: real) = of_int 2 / 2 ^ 112" by simp
  then have b: "fadd binary64 (Fin (1 / 2 ^ 112)) (Fin (1 / 2 ^ 112)) = Fin (2 / 2 ^ 112)"
    using binary64_fraction[of 2 112] by (simp only: fadd.simps) simp
  have "(2 / 2 ^ 112 + 1 / 2 ^ 112 :: real) = of_int 3 / 2 ^ 112" by simp
  then have c: "fadd binary64 (Fin (2 / 2 ^ 112)) (Fin (1 / 2 ^ 112)) = Fin (3 / 2 ^ 112)"
    using binary64_fraction[of 3 112] by (simp only: fadd.simps) simp
  show ?thesis by (simp only: foldl.simps a b c)
qed

lemma tenth_variance:
  "fdiv binary64 (Fin (3 / 2 ^ 112)) (Fin (real 3)) = Fin (1 / 2 ^ 112)"
proof -
  have "(3 / 2 ^ 112 / real 3 :: real) = of_int 1 / 2 ^ 112" by simp
  then show ?thesis using binary64_fraction[of 1 112] by (simp only: fdiv.simps) simp
qed

lemma tenth_sqrt: "fsqrt binary64 (Fin (1 / 2 ^ 112)) = Fin (1 / 2 ^ 56)"
proof -
  have s: "sqrt (1 / 2 ^ 112) = (1 / 2 ^ 56 :: real)"
    by (rule real_sqrt_unique) (simp_all add: power2_eq_square)
  have b: "binary64 (1 / 2 ^ 56) = Fin (1 / 2 ^ 56)"
    using binary64_fraction[of 1 56] by simp
  have "fsqrt binary64 (Fin (1 / 2 ^ 112)) = binary64 (sqrt (1 / 2 ^ 112))" by simp
  also have "\<dots> = binary64 (1 / 2 ^ 56)" by (simp only: s)
  also have "\<dots> = Fin (1 / 2 ^ 56)" by (rule b)
  finally show ?thesis .
qed

lemma std_tenths: "np_std binary64 [Fin tenth, Fin tenth, Fin tenth] = Fin (1 / 2 ^ 56)"
proof -
  have d: "sq_deviations binary64 [Fin tenth, Fin tenth, Fin tenth] =
      [Fin (1 / 2 ^ 112), Fin (1 / 2 ^ 112), Fin (1 / 2 ^ 112)]"
    by (simp only: sq_deviations_def mean_tenths Let_def list.map tenth_deviation tenth_square)
  have "np_sum binary64 [Fin (1 / 2 ^ 112), Fin (1 / 2 ^ 112), Fin (1 / 2 ^ 112)] =
      foldl (fadd binary64) (Fin 0) [Fin (1 / 2 ^ 112), Fin (1 / 2 ^ 112), Fin (1 / 2 ^ 112)]"
    by (rule np_sum_short) simp
  then have s: "np_sum binary64 [Fin (1 / 2 ^ 112), Fin (1 / 2 ^ 112), Fin (1 / 2 ^ 112)] =
      Fin (3 / 2 ^ 112)" by (simp only: tenth_square_sum)
  have n: "Fin (real (length [Fin tenth, Fin tenth, Fin tenth] - 0)) = Fin (real 3)" by simp
  show ?thesis by (simp only: np_std_def np_var_def d s n tenth_variance tenth_sqrt)
qed

lemma population_std_tenths: "population_std [tenth, tenth, tenth] = 0"
  by (simp add: population_std_def mean_of_def)


subsection \<open>The sum of ten samples equal to one tenth\<close>

text \<open>
  Eight partial sums of one sample each are combined as a tree and the two samples left
  are added to the result: \<^verbatim>\<open>np.sum\<close> of ten times 0.1 is 1.
\<close>

lemma tenth_add3: "fadd binary64 (Fin (2 * tenth)) (Fin (2 * tenth)) = Fin (4 * tenth)"
proof -
  have "2 * tenth + 2 * tenth = of_int 7205759403792794 / 2 ^ 54" by (simp add: tenth_def)
  moreover have "4 * tenth = of_int 7205759403792794 / 2 ^ 54" by (simp add: tenth_def)
  ultimately show ?thesis using binary64_fraction[of 7205759403792794 54]
    by (simp only: fadd.simps) simp
qed

lemma tenth_add4: "fadd binary64 (Fin (4 * tenth)) (Fin (4 * tenth)) = Fin (8 * tenth)"
proof -
  have "4 * tenth + 4 * tenth = of_int 7205759403792794 / 2 ^ 53" by (simp add: tenth_def)
  moreover have "8 * tenth = of_int 7205759403792794 / 2 ^ 53" by (simp add: tenth_def)
  ultimately show ?thesis using binary64_fraction[of 7205759403792794 53]
    by (simp only: fadd.simps) simp
qed

lemma tenth_add5:
  "fadd binary64 (Fin (8 * tenth)) (Fin tenth) = Fin (8106479329266893 / 2 ^ 53)"
  apply (simp only: fadd.simps)
  apply (subst binary64_normal[where e = "-1"])
     apply (simp_all add: tenth_def power_int_minus round_half_even_def Let_def)
  done

lemma tenth_add6:
  "fadd binary64 (Fin (8106479329266893 / 2 ^ 53)) (Fin tenth) = Fin 1"
  apply (simp only: fadd.simps)
  apply (subst binary64_normal[where e = "0"])
     apply (simp_all add: tenth_def power_int_minus round_half_even_def Let_def)
  done

lemma sum_ten_tenths:
  "np_sum binary64 [Fin tenth, Fin tenth, Fin tenth, Fin tenth, Fin tenth,
                    Fin tenth, Fin tenth, Fin tenth, Fin tenth, Fin tenth] = Fin 1"
proof -
  let ?r = "[Fin tenth, Fin tenth, Fin tenth, Fin tenth, Fin tenth, Fin tenth, Fin tenth,
             Fin tenth]"
  let ?xs = "?r @ [Fin tenth, Fin tenth]"
  have u: "unrolled_sums binary64 ?r [Fin tenth, Fin tenth] = (?r, [Fin tenth, Fin tenth])"
    by (subst unrolled_sums.simps) simp
  have c: "combine_sums binary64 ?r = Fin (8 * tenth)"
    by (simp add: combine_sums_def tenth_add1 tenth_add3 tenth_add4 del: fadd.simps)
  have f: "foldl (fadd binary64) (Fin (8 * tenth)) [Fin tenth, Fin tenth] = Fin 1"
    by (simp only: foldl.simps tenth_add5 tenth_add6)
  have "pairwise_sum binary64 ?xs =
      (case unrolled_sums binary64 (take 8 ?xs) (drop 8 ?xs) of
         (r, rest) \<Rightarrow> foldl (fadd binary64) (combine_sums binary64 r) rest)"
    by (subst pairwise_sum.simps) simp
  also have "\<dots> = foldl (fadd binary64) (combine_sums binary64 ?r) [Fin tenth, Fin tenth]"
    by (simp add: u del: foldl.simps)
  also have "\<dots> = Fin 1" by (simp only: c f)
  finally show ?thesis by (simp add: np_sum_def)
qed


section \<open>Keys of the battery dictionary\<close>

lemma digit_char_inj:
  assumes "d < 10" "d' < 10" "digit_char d = digit_char d'"
  shows "d = d'"
proof -
  from assms(3) have "(of_char (char_of (48 + d)) :: nat) = of_char (char_of (48 + d'))"
    by (simp add: digit_char_def)
  then show ?thesis using assms(1,2) by simp
qed

lemma digit_char_not_underscore: "d < 10 \<Longrightarrow> digit_char d \<noteq> CHR ''_''"
proof
  assume "d < 10" "digit_char d = CHR ''_''"
  then have "(of_char (char_of (48 + d)) :: nat) = of_char (CHR ''_'')"
    by (simp add: digit_char_def)
  with \<open>d < 10\<close> show False by simp
qed

lemma str_nat_nonempty: "str_nat n \<noteq> []"
  by (subst str_nat.simps) simp

lemma str_nat_no_underscore: "CHR ''_'' \<notin> set (str_nat n)"
proof (induction n rule: str_nat.induct)
  case (1 n)
  show ?case
  proof (cases "n < 10")
    case True
    then show ?thesis using digit_char_not_underscore[of n]
      by (subst str_nat.simps) auto
  next
    case False
    have "n mod 10 < 10" by simp
    then show ?thesis using 1 False digit_char_not_underscore[of "n mod 10"]
      by (subst str_nat.simps) auto
  qed
qed

lemma str_nat_inj: "str_nat n = str_nat m \<Longrightarrow> n = m"
proof (induction n arbitrary: m rule: str_nat.induct)
  case (1 n)
  show ?case
  proof (cases "n < 10")
    case n: True
    show ?thesis
    proof (cases "m < 10")
      case True
      with n 1(2) show ?thesis
        by (simp add: str_nat.simps[of n] str_nat.simps[of m] digit_char_inj)
    next
      case False
      with n 1(2) show ?thesis using str_nat_nonempty[of "m div 10"]
        by (simp add: str_nat.simps[of n] str_nat.simps[of m])
    qed
  next
    case n: False
    show ?thesis
    proof (cases "m < 10")
      case True
      with n 1(2) show ?thesis using str_nat_nonempty[of "n div 10"]
        by (simp add: str_nat.simps[of n] str_nat.simps[of m])
    next
      case False
      with n 1(2) have eq: "str_nat (n div 10) = str_nat (m div 10)"
        "digit_char (n mod 10) = digit_char (m mod 10)"
        by (simp_all add: str_nat.simps[of n] str_nat.simps[of m])
      from 1(1)[OF n eq(1)] have "n div 10 = m div 10" .
      moreover have "n mod 10 = m mod 10" using eq(2) by (intro digit_char_inj) simp_all
      ultimately show ?thesis by (metis div_mult_mod_eq)
    qed
  qed
qed

lemma split_at_underscore:
  assumes "CHR ''_'' \<notin> set xs" "CHR ''_'' \<notin> set ys" "xs @ CHR ''_'' # a = ys @ CHR ''_'' # b"
  shows "xs = ys \<and> a = b"
proof -
  have "takeWhile (\<lambda>c. c \<noteq> CHR ''_'') (xs @ CHR ''_'' # a) = xs"
    using assms(1) by (subst takeWhile_append2) auto
  moreover have "takeWhile (\<lambda>c. c \<noteq> CHR ''_'') (ys @ CHR ''_'' # b) = ys"
    using assms(2) by (subst takeWhile_append2) auto
  ultimately have "xs = ys" using assms(3) by simp
  then show ?thesis using assms(3) by simp
qed

lemma battery_key_inj: "battery_key n l = battery_key m l' \<longleftrightarrow> n = m \<and> l = l'"
proof
  assume "battery_key n l = battery_key m l'"
  then have "str_nat n @ CHR ''_'' # l = str_nat m @ CHR ''_'' # l'"
    by (simp add: battery_key_def)
  from split_at_underscore[OF str_nat_no_underscore str_nat_no_underscore this]
  show "n = m \<and> l = l'" using str_nat_inj by auto
qed auto


section \<open>Invariants of the loops\<close>

lemma cycle_loop_group:
  assumes "cycle_loop rnd label b 0 cs \<lparr>cycles = [], capacities = []\<rparr> = Inr g"
  shows "group_of_battery rnd label b cs g"
proof -
  from cycle_loop_Inr[OF assms] have c: "capacities g = map capacity (cycles g)"
    and l: "list_all2 (extracted rnd label) (map (\<lambda>(c, cy). (b, c, cy)) (enumerate 0 cs)) (cycles g)"
    by auto
  from l have len: "length (cycles g) = length cs" by (auto dest: list_all2_lengthD)
  have "extract_features rnd label b i (cs ! i) = Inr (cycles g ! i)" if "i < length cs" for i
    using list_all2_nthD[OF l, of i] that by (simp add: nth_enumerate_eq)
  with c len show ?thesis by (simp add: group_of_battery_def)
qed

lemma battery_loop_invariant:
  assumes "battery_loop rnd label b bs st = Inr st'"
    and "I b st"
    and "\<And>i g s. \<lbrakk>b \<le> i; i < b + length bs;
            group_of_battery rnd label i (bs ! (i - b)) g; I i s\<rbrakk>
          \<Longrightarrow> I (Suc i) (store_battery label i g s)"
  shows "I (b + length bs) st'"
  using assms
proof (induction bs arbitrary: b st)
  case Nil
  then show ?case by simp
next
  case (Cons cs bs)
  from Cons.prems(1) obtain g
    where g: "cycle_loop rnd label b 0 cs \<lparr>cycles = [], capacities = []\<rparr> = Inr g"
    and rest: "battery_loop rnd label (Suc b) bs (store_battery label b g st) = Inr st'"
    by (auto simp: store_battery_def split: sum.splits)
  have 1: "I (Suc b) (store_battery label b g st)"
    using Cons.prems(3)[of b g st] cycle_loop_group[OF g] Cons.prems(2) by simp
  have "I (Suc b + length bs) st'"
  proof (rule Cons.IH[OF rest 1])
    fix i g s
    assume a: "Suc b \<le> i" "i < Suc b + length bs"
      "group_of_battery rnd label i (bs ! (i - Suc b)) g" "I i s"
    have "(cs # bs) ! (i - b) = bs ! (i - Suc b)" using a(1) by (simp add: nth_Cons')
    then show "I (Suc i) (store_battery label i g s)"
      using Cons.prems(3)[of i g s] a by simp
  qed
  then show ?case by simp
qed

lemma file_loop_invariant:
  assumes "file_loop rnd label files st = Inr st'"
    and "J st"
    and "\<And>mat s s'. \<lbrakk>mat \<in> set files; battery_loop rnd label 0 mat s = Inr s'; J s\<rbrakk> \<Longrightarrow> J s'"
  shows "J st'"
  using assms
proof (induction files arbitrary: st)
  case Nil
  then show ?case by simp
next
  case (Cons mat files)
  from Cons.prems(1) obtain st1 where s1: "battery_loop rnd label 0 mat st = Inr st1"
    and rest: "file_loop rnd label files st1 = Inr st'"
    by (auto split: sum.splits)
  have 1: "J st1" using Cons.prems(3)[OF _ s1 Cons.prems(2)] by simp
  show ?case
  proof (rule Cons.IH[OF rest 1])
    fix m s s'
    assume "m \<in> set files" "battery_loop rnd label 0 m s = Inr s'" "J s"
    then show "J s'" using Cons.prems(3)[of m s s'] by simp
  qed
qed


lemma sum_list_update:
  fixes h :: "'v \<Rightarrow> nat"
  shows "sum_list (map (\<lambda>(k, g). h g) (AList.update k v al)) +
           (case map_of al k of None \<Rightarrow> 0 | Some v' \<Rightarrow> h v') =
         sum_list (map (\<lambda>(k, g). h g) al) + h v"
  by (induction al) auto

lemma group_cycles_store:
  "group_cycles (store_battery label b g s) +
     (case map_of (battery_data s) (battery_key (b + 1) label) of
        None \<Rightarrow> 0 | Some g' \<Rightarrow> length (cycles g')) =
   group_cycles s + length (cycles g)"
  unfolding group_cycles_def store_battery_def
  using sum_list_update[of "\<lambda>g. length (cycles g)" "battery_key (b + 1) label" g "battery_data s"]
  by simp

lemma summary_store [simp]:
  "summary_data (store_battery label b g s) = summary_data s @ cycles g"
  by (simp add: store_battery_def)

lemma battery_data_store [simp]:
  "battery_data (store_battery label b g s) =
     AList.update (battery_key (b + 1) label) g (battery_data s)"
  by (simp add: store_battery_def)

lemma battery_loop_group_cycles_le:
  assumes "battery_loop rnd label b bs st = Inr st'"
    and "group_cycles st \<le> length (summary_data st)"
  shows "group_cycles st' \<le> length (summary_data st')"
proof -
  have "(\<lambda>i s. group_cycles s \<le> length (summary_data s)) (b + length bs) st'"
  proof (rule battery_loop_invariant[OF assms(1)])
    show "group_cycles st \<le> length (summary_data st)" by (rule assms(2))
  next
    fix i g s
    assume "group_cycles s \<le> length (summary_data s)"
    then show "group_cycles (store_battery label i g s)
        \<le> length (summary_data (store_battery label i g s))"
      using group_cycles_store[of label i g s] by simp
  qed
  then show ?thesis .
qed

lemma file_loop_group_cycles_le:
  assumes "file_loop rnd label files st = Inr st'"
    and "group_cycles st \<le> length (summary_data st)"
  shows "group_cycles st' \<le> length (summary_data st')"
  by (rule file_loop_invariant[OF assms(1), where J = "\<lambda>s. group_cycles s \<le> length (summary_data s)"])
     (use assms(2) battery_loop_group_cycles_le in auto)

lemma keys_store:
  "fst ` set (battery_data (store_battery label b g s)) =
     insert (battery_key (b + 1) label) (fst ` set (battery_data s))"
  by (simp add: dom_update)

lemma battery_loop_fresh:
  assumes "battery_loop rnd label b bs st = Inr st'"
    and "\<forall>n>b. battery_key n label \<notin> fst ` set (battery_data st)"
  shows "group_cycles st' + length (summary_data st) = group_cycles st + length (summary_data st')"
proof -
  let ?I = "\<lambda>i (s::explorer). group_cycles s + length (summary_data st) = group_cycles st + length (summary_data s)
      \<and> (\<forall>n>i. battery_key n label \<notin> fst ` set (battery_data s))"
  have "?I (b + length bs) st'"
  proof (rule battery_loop_invariant[OF assms(1)])
    show "?I b st" using assms(2) by simp
  next
    fix i g s
    assume I: "?I i s"
    then have "battery_key (i + 1) label \<notin> fst ` set (battery_data s)" by simp
    then have "map_of (battery_data s) (battery_key (i + 1) label) = None"
      by (simp add: map_of_eq_None_iff)
    then have "group_cycles (store_battery label i g s) = group_cycles s + length (cycles g)"
      using group_cycles_store[of label i g s] by simp
    moreover have "\<forall>n>Suc i. battery_key n label \<notin> fst ` set (battery_data (store_battery label i g s))"
      using I by (simp add: keys_store battery_key_inj del: battery_data_store)
    ultimately show "?I (Suc i) (store_battery label i g s)" using I by simp
  qed
  then show ?thesis by simp
qed

lemma battery_loop_keys:
  assumes "battery_loop rnd label b bs st = Inr st'"
  shows "fst ` set (battery_data st') =
           fst ` set (battery_data st) \<union> (\<lambda>n. battery_key n label) ` {b + 1..b + length bs}"
proof -
  let ?I = "\<lambda>i (s::explorer). fst ` set (battery_data s) =
           fst ` set (battery_data st) \<union> (\<lambda>n. battery_key n label) ` {b + 1..i}"
  have "?I (b + length bs) st'"
  proof (rule battery_loop_invariant[OF assms(1)])
    show "?I b st" by simp
  next
    fix i g s
    assume "b \<le> i" and I: "?I i s"
    then have "{b + 1..Suc i} = insert (Suc i) {b + 1..i}" by auto
    then show "?I (Suc i) (store_battery label i g s)"
      using I by (simp add: keys_store del: battery_data_store)
  qed
  then show ?thesis .
qed

lemma battery_loop_distinct:
  assumes "battery_loop rnd label b bs st = Inr st'"
    and "distinct (map fst (battery_data st))"
  shows "distinct (map fst (battery_data st'))"
proof -
  have "(\<lambda>i s. distinct (map fst (battery_data s))) (b + length bs) st'"
    by (rule battery_loop_invariant[OF assms(1)]) (simp_all add: assms(2) distinct_update)
  then show ?thesis .
qed

lemma loaded_positions_Cons:
  "loaded_positions label (mat # files) =
     (\<lambda>n. (n, label)) ` {1..length mat} \<union> loaded_positions label files"
  by (simp add: loaded_positions_def)

lemma file_loop_keys:
  "file_loop rnd label files st = Inr st' \<Longrightarrow>
     fst ` set (battery_data st') =
       fst ` set (battery_data st) \<union> (\<lambda>(n, l). battery_key n l) ` loaded_positions label files"
proof (induction files arbitrary: st)
  case Nil
  then show ?case by (simp add: loaded_positions_def)
next
  case (Cons mat files)
  from Cons.prems obtain st1 where s1: "battery_loop rnd label 0 mat st = Inr st1"
    and rest: "file_loop rnd label files st1 = Inr st'"
    by (auto split: sum.splits)
  have "(\<lambda>(n, l). battery_key n l) ` (\<lambda>n. (n, label)) ` {1..length mat} =
      (\<lambda>n. battery_key n label) ` {1..length mat}" by (simp add: image_image)
  then show ?case
    using Cons.IH[OF rest] battery_loop_keys[OF s1]
    by (simp add: loaded_positions_Cons image_Un Un_assoc)
qed

lemma file_loop_distinct:
  assumes "file_loop rnd label files st = Inr st'"
    and "distinct (map fst (battery_data st))"
  shows "distinct (map fst (battery_data st'))"
  by (rule file_loop_invariant[OF assms(1), where J = "\<lambda>s. distinct (map fst (battery_data s))"])
     (use assms(2) battery_loop_distinct in auto)


section \<open>The loads of the example inputs\<close>

lemma extract_cycle_one:
  "extract_features binary64 label 0 0 cycle_one = Inr (record_one label)"
  by (simp add: extract_features_def cycle_one_def record_one_def np_max_def np_mean_def
      np_sum_short)

lemma str_nat_1: "str_nat (Suc 0) = ''1''"
  by code_simp

lemma battery_key_1: "battery_key (Suc 0) label = ''battery_1_'' @ label"
  by (simp add: battery_key_def str_nat_1)

lemma load_two_files_charge:
  "load_charge_data binary64 fs_two_files init = Inr self_two_files_charge"
  by (simp add: load_charge_data_def fs_two_files_def init_def extract_cycle_one battery_key_1 group_one_def record_one_def
      self_two_files_charge_def)

lemma load_two_files_partial:
  "load_partial_charge_data binary64 fs_two_files self_two_files_charge = Inr self_two_files"
  by (simp add: load_partial_charge_data_def fs_two_files_def extract_cycle_one battery_key_1 group_one_def record_one_def
      self_two_files_charge_def self_two_files_def)

lemma load_one_file_charge:
  "load_charge_data binary64 fs_one_file init = Inr self_one_file_charge"
  by (simp add: load_charge_data_def fs_one_file_def init_def extract_cycle_one battery_key_1 group_one_def record_one_def
      self_one_file_charge_def)

lemma load_one_file_partial:
  "load_partial_charge_data binary64 fs_one_file self_one_file_charge = Inr self_one_file"
  by (simp add: load_partial_charge_data_def fs_one_file_def extract_cycle_one battery_key_1 group_one_def record_one_def
      self_one_file_charge_def self_one_file_def)


lemma extract_cycle_two:
  "extract_features binary64 label 0 c cycle_two = Inr (record_two label c)"
  by (simp add: extract_features_def cycle_two_def record_two_def np_max_def np_mean_def
      np_sum_short fmaximum_def isnan_def)

lemma extract_cycle_one_at:
  "extract_features binary64 label b c cycle_one =
     Inr ((record_one label)\<lparr>battery_id := b + 1, cycle_idx := c\<rparr>)"
  by (simp add: extract_features_def cycle_one_def record_one_def np_max_def np_mean_def
      np_sum_short)

lemma extract_cycle_two_at:
  "extract_features binary64 label b c cycle_two =
     Inr ((record_two label c)\<lparr>battery_id := b + 1\<rparr>)"
  by (simp add: extract_features_def cycle_two_def record_two_def np_max_def np_mean_def
      np_sum_short fmaximum_def isnan_def)

lemma str_nat_2: "str_nat (Suc (Suc 0)) = ''2''"
  by code_simp

lemma battery_key_2: "battery_key (Suc (Suc 0)) label = ''battery_2_'' @ label"
  by (simp add: battery_key_def str_nat_2)

lemma load_two_cycles_charge:
  "load_charge_data binary64 fs_two_cycles init = Inr self_two_cycles_charge"
  by (simp add: load_charge_data_def fs_two_cycles_def init_def extract_cycle_one_at
      extract_cycle_two_at battery_key_1 battery_key_2 record_one_def record_two_def
      self_two_cycles_charge_def)

lemma load_two_cycles_partial:
  "load_partial_charge_data binary64 fs_two_cycles self_two_cycles_charge = Inr self_two_cycles"
  by (simp add: load_partial_charge_data_def fs_two_cycles_def extract_cycle_one_at
      extract_cycle_two_at battery_key_1 battery_key_2 record_one_def record_two_def
      self_two_cycles_charge_def self_two_cycles_def)

lemma load_later_file_charge:
  "load_charge_data binary64 fs_later_file init = Inr self_later_file_charge"
  by (simp add: load_charge_data_def fs_later_file_def init_def extract_cycle_one_at
      extract_cycle_two_at battery_key_1 record_one_def record_two_def group_two_def
      self_later_file_charge_def)

lemma load_later_file_partial:
  "load_partial_charge_data binary64 fs_later_file self_later_file_charge = Inr self_later_file"
  by (simp add: load_partial_charge_data_def fs_later_file_def extract_cycle_one_at
      extract_cycle_two_at battery_key_1 record_one_def record_two_def group_two_def
      group_one_def self_later_file_charge_def self_later_file_def)


section \<open>The entries of the battery dictionary\<close>

lemma set_update_subset: "set (AList.update k v al) \<subseteq> insert (k, v) (set al)"
  by (induction al) auto

lemma battery_loop_entries:
  assumes "battery_loop rnd label b0 bs st = Inr st'"
    and "\<forall>(k, g)\<in>set (battery_data st). P k g"
    and "\<And>b g. \<lbrakk>b0 \<le> b; b < b0 + length bs; group_of_battery rnd label b (bs ! (b - b0)) g\<rbrakk>
           \<Longrightarrow> P (battery_key (b + 1) label) g"
  shows "\<forall>(k, g)\<in>set (battery_data st'). P k g"
proof -
  let ?I = "\<lambda>(i::nat) (s::explorer). \<forall>(k, g)\<in>set (battery_data s). P k g"
  have "?I (b0 + length bs) st'"
  proof (rule battery_loop_invariant[OF assms(1)])
    show "?I b0 st" by (rule assms(2))
  next
    fix i g s
    assume a: "b0 \<le> i" "i < b0 + length bs" "group_of_battery rnd label i (bs ! (i - b0)) g"
      "?I i s"
    have "P (battery_key (i + 1) label) g" using assms(3)[OF a(1,2,3)] .
    then show "?I (Suc i) (store_battery label i g s)"
      using a(4) set_update_subset[of "battery_key (i + 1) label" g "battery_data s"]
      by (auto simp del: AList.update.simps)
  qed
  then show ?thesis .
qed

lemma file_loop_entries:
  assumes "file_loop rnd label files st = Inr st'"
    and "\<forall>(k, g)\<in>set (battery_data st). P k g"
    and "\<And>mat b g. \<lbrakk>mat \<in> set files; b < length mat; group_of_battery rnd label b (mat ! b) g\<rbrakk>
           \<Longrightarrow> P (battery_key (b + 1) label) g"
  shows "\<forall>(k, g)\<in>set (battery_data st'). P k g"
proof (rule file_loop_invariant[OF assms(1), where J = "\<lambda>s. \<forall>(k, g)\<in>set (battery_data s). P k g"])
  show "\<forall>(k, g)\<in>set (battery_data st). P k g" by (rule assms(2))
next
  fix mat s s'
  assume a: "mat \<in> set files" "battery_loop rnd label 0 mat s = Inr s'"
    "\<forall>(k, g)\<in>set (battery_data s). P k g"
  show "\<forall>(k, g)\<in>set (battery_data s'). P k g"
  proof (rule battery_loop_entries[OF a(2,3)])
    fix b g
    assume "b < 0 + length mat" "group_of_battery rnd label b (mat ! (b - 0)) g"
    then show "P (battery_key (b + 1) label) g" using assms(3)[OF a(1), of b g] by simp
  qed
qed

lemma extract_features_ids:
  "extract_features rnd label b c cy = Inr f \<Longrightarrow>
     battery_id f = b + 1 \<and> cycle_type f = label \<and> cycle_idx f = c"
  by (auto simp: extract_features_def Let_def split: list.splits sum.splits)

lemma group_of_battery_ids:
  assumes "group_of_battery rnd label b cs g"
  shows "map cycle_idx (cycles g) = [0..<length cs]"
    and "\<forall>f\<in>set (cycles g). battery_id f = b + 1 \<and> cycle_type f = label"
proof -
  from assms have len: "length (cycles g) = length cs"
    and ex: "\<And>i. i < length cs \<Longrightarrow> extract_features rnd label b i (cs ! i) = Inr (cycles g ! i)"
    by (auto simp: group_of_battery_def)
  show "map cycle_idx (cycles g) = [0..<length cs]"
    by (rule nth_equalityI) (use len extract_features_ids[OF ex] in auto)
  show "\<forall>f\<in>set (cycles g). battery_id f = b + 1 \<and> cycle_type f = label"
    using len extract_features_ids[OF ex] by (auto simp: in_set_conv_nth)
qed


lemma battery_loop_map_of:
  assumes "battery_loop rnd label 0 mat st = Inr st'"
  shows "(\<forall>n<length mat. \<exists>g. map_of (battery_data st') (battery_key (n + 1) label) = Some g \<and>
             group_of_battery rnd label n (mat ! n) g) \<and>
         (\<forall>k. (\<forall>n<length mat. k \<noteq> battery_key (n + 1) label) \<longrightarrow>
             map_of (battery_data st') k = map_of (battery_data st) k)"
proof -
  let ?I = "\<lambda>(i::nat) (s::explorer).
      (\<forall>n<i. \<exists>g. map_of (battery_data s) (battery_key (n + 1) label) = Some g \<and>
             group_of_battery rnd label n (mat ! n) g) \<and>
      (\<forall>k. (\<forall>n<i. k \<noteq> battery_key (n + 1) label) \<longrightarrow>
             map_of (battery_data s) k = map_of (battery_data st) k)"
  have "?I (0 + length mat) st'"
  proof (rule battery_loop_invariant[OF assms])
    show "?I 0 st" by simp
  next
    fix i g s
    assume g: "group_of_battery rnd label i (mat ! (i - 0)) g" and I: "?I i s"
    have m: "map_of (battery_data (store_battery label i g s)) =
        (map_of (battery_data s))(battery_key (i + 1) label \<mapsto> g)"
      by (simp add: update_conv')
    show "?I (Suc i) (store_battery label i g s)"
    proof (intro conjI allI impI)
      fix n assume "n < Suc i"
      show "\<exists>g'. map_of (battery_data (store_battery label i g s)) (battery_key (n + 1) label) = Some g' \<and>
             group_of_battery rnd label n (mat ! n) g'"
      proof (cases "n = i")
        case True
        then show ?thesis using g m by simp
      next
        case False
        with \<open>n < Suc i\<close> have "n < i" by simp
        with I obtain g' where "map_of (battery_data s) (battery_key (n + 1) label) = Some g'"
          "group_of_battery rnd label n (mat ! n) g'" by blast
        then show ?thesis using False m by (simp add: battery_key_inj)
      qed
    next
      fix k assume k: "\<forall>n<Suc i. k \<noteq> battery_key (n + 1) label"
      then have "k \<noteq> battery_key (i + 1) label" by simp
      moreover have "map_of (battery_data s) k = map_of (battery_data st) k" using I k by simp
      ultimately show "map_of (battery_data (store_battery label i g s)) k = map_of (battery_data st) k"
        using m by simp
    qed
  qed
  then show ?thesis by simp
qed

lemma file_loop_untouched:
  assumes "file_loop rnd label files st = Inr st'"
    and "k \<notin> (\<lambda>(n, l). battery_key n l) ` loaded_positions label files"
  shows "map_of (battery_data st') k = map_of (battery_data st) k"
proof (rule file_loop_invariant[OF assms(1), where J = "\<lambda>s. map_of (battery_data s) k = map_of (battery_data st) k"])
  show "map_of (battery_data st) k = map_of (battery_data st) k" by simp
next
  fix mat s s'
  assume a: "mat \<in> set files" "battery_loop rnd label 0 mat s = Inr s'"
    "map_of (battery_data s) k = map_of (battery_data st) k"
  have "\<forall>n<length mat. k \<noteq> battery_key (n + 1) label"
  proof (intro allI impI notI)
    fix n assume "n < length mat" "k = battery_key (n + 1) label"
    then have "k \<in> (\<lambda>(n, l). battery_key n l) ` loaded_positions label files"
      using a(1) by (force simp: loaded_positions_def)
    with assms(2) show False by simp
  qed
  then show "map_of (battery_data s') k = map_of (battery_data st) k"
    using battery_loop_map_of[OF a(2)] a(3) by simp
qed

lemma file_loop_last_wins:
  assumes "file_loop rnd label files st = Inr st'"
    and "j < length files" and "n < length (files ! j)"
    and "\<forall>i. j < i \<and> i < length files \<longrightarrow> length (files ! i) \<le> n"
  shows "\<exists>g. map_of (battery_data st') (battery_key (n + 1) label) = Some g \<and>
             group_of_battery rnd label n (files ! j ! n) g"
  using assms
proof (induction files arbitrary: st j)
  case Nil
  then show ?case by simp
next
  case (Cons mat files)
  from Cons.prems(1) obtain st1 where s1: "battery_loop rnd label 0 mat st = Inr st1"
    and rest: "file_loop rnd label files st1 = Inr st'"
    by (auto split: sum.splits)
  show ?case
  proof (cases j)
    case 0
    with Cons.prems(3) have n: "n < length mat" by simp
    with battery_loop_map_of[OF s1] obtain g
      where g: "map_of (battery_data st1) (battery_key (n + 1) label) = Some g"
        "group_of_battery rnd label n (mat ! n) g" by blast
    have "\<forall>m\<in>set files. length m \<le> n"
    proof
      fix m assume "m \<in> set files"
      then obtain i where "i < length files" "files ! i = m" by (auto simp: in_set_conv_nth)
      then show "length m \<le> n" using Cons.prems(4)[rule_format, of "Suc i"] 0 by simp
    qed
    then have "battery_key (n + 1) label \<notin> (\<lambda>(n, l). battery_key n l) ` loaded_positions label files"
      by (auto simp: loaded_positions_def battery_key_inj)
    from file_loop_untouched[OF rest this] g 0 show ?thesis by simp
  next
    case (Suc j')
    have "\<exists>g. map_of (battery_data st') (battery_key (n + 1) label) = Some g \<and>
             group_of_battery rnd label n (files ! j' ! n) g"
    proof (rule Cons.IH[OF rest])
      show "j' < length files" using Cons.prems(2) Suc by simp
      show "n < length (files ! j')" using Cons.prems(3) Suc by simp
      show "\<forall>i. j' < i \<and> i < length files \<longrightarrow> length (files ! i) \<le> n"
        using Cons.prems(4) Suc by (metis Suc_less_eq length_Cons nth_Cons_Suc)
    qed
    then show ?thesis using Suc by simp
  qed
qed


lemma loads_unfold:
  assumes "load_charge_data rnd fs init = Inr self1"
    and "load_partial_charge_data rnd fs self1 = Inr self2"
  obtains cf pf where "charge fs = Some cf" "partial_charge fs = Some pf"
    "file_loop rnd ''charge'' cf init = Inr self1"
    "file_loop rnd ''partial_charge'' pf self1 = Inr self2"
  using assms
  by (auto simp: load_charge_data_def load_partial_charge_data_def split: option.splits)

lemma inj_battery_key: "inj (\<lambda>(n, l). battery_key n l)"
  by (auto simp: inj_on_def battery_key_inj)

lemma loaded_keys:
  assumes "file_loop rnd ''charge'' cf init = Inr self1"
    and "file_loop rnd ''partial_charge'' pf self1 = Inr self2"
  shows "fst ` set (battery_data self2) =
           (\<lambda>(n, l). battery_key n l) ` (loaded_positions ''charge'' cf \<union>
              loaded_positions ''partial_charge'' pf)"
    and "distinct (map fst (battery_data self2))"
proof -
  show "fst ` set (battery_data self2) =
           (\<lambda>(n, l). battery_key n l) ` (loaded_positions ''charge'' cf \<union>
              loaded_positions ''partial_charge'' pf)"
    using file_loop_keys[OF assms(1)] file_loop_keys[OF assms(2)] by (simp add: image_Un)
  have "distinct (map fst (battery_data self1))"
    using file_loop_distinct[OF assms(1)] by simp
  then show "distinct (map fst (battery_data self2))"
    by (rule file_loop_distinct[OF assms(2)])
qed

lemma loaded_summary:
  assumes "file_loop rnd ''charge'' cf init = Inr self1"
    and "file_loop rnd ''partial_charge'' pf self1 = Inr self2"
  shows "\<exists>cs ps. summary_data self2 = cs @ ps \<and>
           list_all2 (extracted rnd ''charge'') (source_order cf) cs \<and>
           list_all2 (extracted rnd ''partial_charge'') (source_order pf) ps"
  using file_loop_summary[OF assms(1)] file_loop_summary[OF assms(2)] by auto


section \<open>Groups of records in the summary list\<close>

lemma battery_order_Cons:
  "battery_order b (cs # bs) =
     map (\<lambda>(c, cy). (b, c, cy)) (enumerate 0 cs) @ battery_order (Suc b) bs"
  by (simp add: battery_order_def)

lemma filter_battery_order:
  "filter (\<lambda>src. fst src = b) (battery_order b0 bs) =
     (if b0 \<le> b \<and> b < b0 + length bs
      then map (\<lambda>(c, cy). (b, c, cy)) (enumerate 0 (bs ! (b - b0))) else [])"
proof (induction bs arbitrary: b0)
  case Nil
  then show ?case by (auto simp: battery_order_def)
next
  case (Cons cs bs)
  have 1: "filter (\<lambda>src. fst src = b) (map (\<lambda>(c, cy). (b0, c, cy)) (enumerate 0 cs)) =
      (if b0 = b then map (\<lambda>(c, cy). (b, c, cy)) (enumerate 0 cs) else [])"
    by (auto simp: filter_map o_def split_def)
  show ?case
    unfolding battery_order_Cons filter_append 1 Cons.IH
    by (auto simp: nth_Cons' Suc_diff_le)
qed

lemma list_all2_filter:
  assumes "list_all2 R xs ys" and "\<And>x y. R x y \<Longrightarrow> P x = Q y"
  shows "list_all2 R (filter P xs) (filter Q ys)"
  using assms by (induction rule: list_all2_induct) auto

lemma list_all2_set2:
  "list_all2 R xs ys \<Longrightarrow> y \<in> set ys \<Longrightarrow> \<exists>x\<in>set xs. R x y"
  by (induction rule: list_all2_induct) auto

lemma list_all2_set1:
  "list_all2 R xs ys \<Longrightarrow> x \<in> set xs \<Longrightarrow> \<exists>y\<in>set ys. R x y"
  by (induction rule: list_all2_induct) auto

lemma extracted_ids:
  "extracted rnd label src f \<Longrightarrow>
     battery_id f = fst src + 1 \<and> cycle_type f = label \<and> cycle_idx f = fst (snd src)"
  by (cases src) (auto dest: extract_features_ids)

lemma extracted_segment:
  assumes "list_all2 (extracted rnd label) (map (\<lambda>(c, cy). (b, c, cy)) (enumerate 0 cs)) fs"
  shows "map cycle_idx fs = [0..<length fs]"
proof (rule nth_equalityI)
  from assms have len: "length fs = length cs" by (auto dest: list_all2_lengthD)
  then show "length (map cycle_idx fs) = length [0..<length fs]" by simp
  fix i assume "i < length (map cycle_idx fs)"
  then have i: "i < length cs" using len by simp
  from list_all2_nthD[OF assms, of i] i
  have "extracted rnd label (b, i, cs ! i) (fs ! i)" by (simp add: nth_enumerate_eq)
  then show "map cycle_idx fs ! i = [0..<length fs] ! i"
    using i len by (auto dest: extract_features_ids)
qed

lemma group_segment:
  assumes "list_all2 (extracted rnd label) (source_order files) fs" and "length files \<le> 1"
  shows "map cycle_idx (filter (\<lambda>f. battery_id f = b \<and> cycle_type f = t) fs) =
           [0..<length (filter (\<lambda>f. battery_id f = b \<and> cycle_type f = t) fs)]"
proof (cases "t = label \<and> 0 < b")
  case False
  have "\<And>f. f \<in> set fs \<Longrightarrow> \<not> (battery_id f = b \<and> cycle_type f = t)"
  proof -
    fix f assume "f \<in> set fs"
    then obtain src where "extracted rnd label src f"
      using list_all2_set2[OF assms(1)] by blast
    from extracted_ids[OF this] False show "\<not> (battery_id f = b \<and> cycle_type f = t)" by auto
  qed
  then have "filter (\<lambda>f. battery_id f = b \<and> cycle_type f = t) fs = []"
    by (simp add: filter_empty_conv)
  then show ?thesis by simp
next
  case True
  have 1: "list_all2 (extracted rnd label) (filter (\<lambda>src. fst src = b - 1) (source_order files))
      (filter (\<lambda>f. battery_id f = b \<and> cycle_type f = t) fs)"
  proof (rule list_all2_filter[OF assms(1)])
    fix x y assume "extracted rnd label x y"
    from extracted_ids[OF this] True
    show "(fst x = b - 1) = (battery_id y = b \<and> cycle_type y = t)" by auto
  qed
  have "\<exists>cs. filter (\<lambda>src. fst src = b - 1) (source_order files) =
      map (\<lambda>(c, cy). (b - 1, c, cy)) (enumerate 0 cs)"
  proof (cases files)
    case Nil
    then show ?thesis by (auto simp: source_order_def intro: exI[where x = "[]"])
  next
    case (Cons mat rest)
    with assms(2) have "source_order files = battery_order 0 mat" by (simp add: source_order_def)
    then show ?thesis
      by (auto simp: filter_battery_order intro: exI[where x = "[]"])
  qed
  then obtain cs where "filter (\<lambda>src. fst src = b - 1) (source_order files) =
      map (\<lambda>(c, cy). (b - 1, c, cy)) (enumerate 0 cs)" by blast
  with 1 have "list_all2 (extracted rnd label) (map (\<lambda>(c, cy). (b - 1, c, cy)) (enumerate 0 cs))
      (filter (\<lambda>f. battery_id f = b \<and> cycle_type f = t) fs)" by simp
  then show ?thesis by (rule extracted_segment)
qed

lemma filter_other_label:
  assumes "list_all2 (extracted rnd label) src fs" and "t \<noteq> label"
  shows "filter (\<lambda>f. battery_id f = b \<and> cycle_type f = t) fs = []"
proof -
  have "\<not> (battery_id f = b \<and> cycle_type f = t)" if "f \<in> set fs" for f
  proof -
    from that obtain s where "extracted rnd label s f"
      using list_all2_set2[OF assms(1)] by blast
    from extracted_ids[OF this] assms(2) show ?thesis by auto
  qed
  then show ?thesis by (simp add: filter_empty_conv)
qed


section \<open>The summary\<close>

lemma df_getitem_capacity:
  "df_getitem (DataFrame data) ''capacity'' =
     (if data = [] then Inl KeyError else Inr (map capacity data))"
  by (simp add: df_getitem_def DataFrame_def feature_keys_def feature_values_def)

lemma series_apply_Inr:
  "series_apply f xs = Inr ys \<Longrightarrow> list_all2 (\<lambda>x y. f x = Inr y) xs ys"
  by (induction xs arbitrary: ys) (auto split: sum.splits)

lemma series_apply_length: "series_apply f xs = Inr ys \<Longrightarrow> length ys = length xs"
  by (drule series_apply_Inr) (simp add: list_all2_lengthD)

lemma saved_frame:
  assumes "data \<noteq> []"
  shows "df_drop (df_setitem (DataFrame data) ''flattened_capacity'' flattened) ''capacity'' =
     Inr \<lparr>columns = saved_columns, rows = map (\<lambda>(r, v). saved_row r v) (zip data flattened)\<rparr>"
  using assms
  by (simp add: df_drop_def df_setitem_def DataFrame_def feature_keys_def feature_values_def
      saved_columns_def saved_row_def remove_nth_def zip_map1 split_def o_def)

lemma summarize_dataset_Inr:
  assumes "summarize_dataset rnd fmt self fs = Inr (rep, fs')"
  obtains flattened all_capacities cap_min cap_max where
    "summary_data self \<noteq> []"
    "series_apply flatten (map capacity (summary_data self)) = Inr flattened"
    "series_apply as_float flattened = Inr all_capacities"
    "np_min all_capacities = Inr cap_min" "np_max all_capacities = Inr cap_max"
    "rep = \<lparr>total_batteries = length (battery_data self),
            total_cycles = length (summary_data self),
            capacity_mean = np_mean rnd all_capacities,
            capacity_min = cap_min,
            capacity_max = cap_max,
            capacity_std = np_std rnd all_capacities,
            grouped_stats = groupby_agg rnd (map cycle_type (summary_data self)) all_capacities,
            summary_df = \<lparr>columns = saved_columns,
               rows = map (\<lambda>(r, v). saved_row r v) (zip (summary_data self) flattened)\<rparr>\<rparr>"
    "fs' = fs\<lparr>output_dir := (output_dir fs)
             (''battery_cycle_summary.csv'' \<mapsto> to_csv fmt (summary_df rep),
              ''battery_cycle_type_summary.csv'' \<mapsto> grouped_to_csv fmt (grouped_stats rep))\<rparr>"
proof -
  from assms have ne: "summary_data self \<noteq> []"
    by (auto simp: summarize_dataset_def Let_def df_getitem_capacity split: if_splits)
  show thesis
    using assms that ne
    by (auto simp: summarize_dataset_def Let_def df_getitem_capacity saved_frame
        split: sum.splits)
qed


lemma main_Inr:
  assumes "main rnd fmt fs = Inr (rep, fs')"
  obtains self1 self2 where "load_charge_data rnd fs init = Inr self1"
    "load_partial_charge_data rnd fs self1 = Inr self2"
    "summarize_dataset rnd fmt self2 fs = Inr (rep, fs')"
  using assms by (auto simp: main_def split: sum.splits)



lemma sqrt_100: "sqrt 100 = 10"
  by (rule real_sqrt_unique) simp_all

lemma groupby_example:
  "groupby_agg binary64
     [''charge'', ''charge'', ''charge'', ''partial_charge'', ''partial_charge'', ''partial_charge'']
     [Fin 10, Fin 20, Fin 30, Fin 5, Fin 5, Fin 5] =
   [(''charge'', \<lparr>g_mean = Fin 20, g_min = Fin 10, g_max = Fin 30, g_std = Fin 10\<rparr>),
    (''partial_charge'', \<lparr>g_mean = Fin 5, g_min = Fin 5, g_max = Fin 5, g_std = Fin 0\<rparr>)]"
  by (simp add: groupby_agg_def group_of_def pd_mean_def pd_min_def pd_max_def pd_std_def
      pd_var_def kahan_add_def welford_add_def dropna_def isnan_def np_min_def np_max_def
      fsub_def fminimum_def fmaximum_def sqrt_100 Let_def)

lemma series_apply_map_Inr:
  "map f xs = map Inr ys \<Longrightarrow> series_apply f xs = Inr ys"
  by (induction xs arbitrary: ys) auto

lemma np_min_nonempty: "xs \<noteq> [] \<Longrightarrow> \<exists>m. np_min xs = Inr m"
  by (cases xs) (simp_all add: np_min_def)

lemma np_max_nonempty: "xs \<noteq> [] \<Longrightarrow> \<exists>m. np_max xs = Inr m"
  by (cases xs) (simp_all add: np_max_def)

lemma summarize_dataset_eval:
  assumes "summary_data self \<noteq> []"
    and "series_apply flatten (map capacity (summary_data self)) = Inr flattened"
    and "series_apply as_float flattened = Inr all_capacities"
  obtains rep fs' where "summarize_dataset rnd fmt self fs = Inr (rep, fs')"
    "grouped_stats rep = groupby_agg rnd (map cycle_type (summary_data self)) all_capacities"
    "capacity_mean rep = np_mean rnd all_capacities"
    "capacity_std rep = np_std rnd all_capacities"
    "np_min all_capacities = Inr (capacity_min rep)"
    "np_max all_capacities = Inr (capacity_max rep)"
proof -
  have "length all_capacities = length (summary_data self)"
    using series_apply_length[OF assms(2)] series_apply_length[OF assms(3)] by simp
  with assms(1) have ne: "all_capacities \<noteq> []" by auto
  from np_min_nonempty[OF ne] np_max_nonempty[OF ne] obtain lo hi
    where m: "np_min all_capacities = Inr lo" "np_max all_capacities = Inr hi" by blast
  show thesis
    by (rule that[of "\<lparr>total_batteries = length (battery_data self),
            total_cycles = length (summary_data self),
            capacity_mean = np_mean rnd all_capacities,
            capacity_min = lo,
            capacity_max = hi,
            capacity_std = np_std rnd all_capacities,
            grouped_stats = groupby_agg rnd (map cycle_type (summary_data self)) all_capacities,
            summary_df = \<lparr>columns = saved_columns,
               rows = map (\<lambda>(r, v). saved_row r v) (zip (summary_data self) flattened)\<rparr>\<rparr>"])
       (simp_all add: summarize_dataset_def Let_def df_getitem_capacity saved_frame assms m)
qed


lemma group_of_map:
  "group_of t (map k xs) (map h xs) = map h (filter (\<lambda>r. k r = t) xs)"
  by (induction xs) (simp_all add: group_of_def)

lemma welford_count:
  "fst (foldl (welford_add rnd) (n, a, b) xs) = n + length xs"
  by (induction xs arbitrary: n a b) (simp_all add: welford_add_def Let_def)

lemma pd_std_short: "length xs \<le> 1 \<Longrightarrow> pd_std rnd xs = NaN"
proof -
  assume "length xs \<le> 1"
  moreover have "length (dropna xs) \<le> length xs" by (simp add: dropna_def)
  ultimately have "fst (foldl (welford_add rnd) (0, Fin 0, Fin 0) (dropna xs)) \<le> 1"
    by (simp add: welford_count)
  then show ?thesis by (auto simp: pd_std_def pd_var_def split: prod.splits)
qed

lemma groupby_agg_lookup:
  assumes "t \<in> set keys"
  shows "map_of (groupby_agg rnd keys vals) t =
     Some \<lparr>g_mean = pd_mean rnd (group_of t keys vals), g_min = pd_min (group_of t keys vals),
           g_max = pd_max (group_of t keys vals), g_std = pd_std rnd (group_of t keys vals)\<rparr>"
proof -
  have "map_of (map (\<lambda>k. (k, f k)) ks) t = (if t \<in> set ks then Some (f t) else None)"
    for f :: "string \<Rightarrow> group_stats" and ks
    by (induction ks) auto
  from this[of _ "sort (remdups keys)"] assms show ?thesis
    by (simp add: groupby_agg_def Let_def)
qed

lemma groupby_agg_keys:
  "map fst (groupby_agg rnd keys vals) = sort (remdups keys)"
  by (simp add: groupby_agg_def Let_def o_def)

lemma flatten_all:
  assumes "\<forall>r\<in>set data. flattens_to_float r"
  shows "series_apply flatten (map capacity data) =
           Inr (map (\<lambda>r. PyFloat (flat_capacity r)) data)"
    and "series_apply as_float (map (\<lambda>r. PyFloat (flat_capacity r)) data) =
           Inr (map flat_capacity data)"
proof -
  have "map flatten (map capacity data) = map Inr (map (\<lambda>r. PyFloat (flat_capacity r)) data)"
    using assms by (auto simp: flattens_to_float_def flat_capacity_def)
  then show "series_apply flatten (map capacity data) =
      Inr (map (\<lambda>r. PyFloat (flat_capacity r)) data)"
    by (rule series_apply_map_Inr)
  show "series_apply as_float (map (\<lambda>r. PyFloat (flat_capacity r)) data) =
      Inr (map flat_capacity data)"
    by (rule series_apply_map_Inr) simp
qed

section \<open>The run on the example with one file in each directory\<close>

lemma digit_chars:
  "digit_char 0 = CHR ''0''" "digit_char 1 = CHR ''1''" "digit_char 2 = CHR ''2''"
  "digit_char 3 = CHR ''3''" "digit_char 4 = CHR ''4''" "digit_char 5 = CHR ''5''"
  "digit_char 6 = CHR ''6''" "digit_char 7 = CHR ''7''" "digit_char 8 = CHR ''8''"
  "digit_char 9 = CHR ''9''" "digit_char (Suc 0) = CHR ''1''"
  by code_simp+

lemma repr_demo_values:
  "repr_demo (Fin 1) = ''1.0''" "repr_demo (Fin 2) = ''2.0''" "repr_demo (Fin 4) = ''4.0''"
  "repr_demo (Fin 25) = ''25.0''" "repr_demo NaN = []" "repr_demo (Fin 0) = ''0.0''"
  by (simp_all add: repr_demo_def str_nat.simps digit_chars)

lemma summarize_one_file:
  "summarize_dataset binary64 fmt self_one_file fs =
     Inr (report_one_file,
          fs\<lparr>output_dir := (output_dir fs)
             (''battery_cycle_summary.csv'' \<mapsto> to_csv fmt (summary_df report_one_file),
              ''battery_cycle_type_summary.csv'' \<mapsto>
                 grouped_to_csv fmt (grouped_stats report_one_file))\<rparr>)"
  by (simp add: summarize_dataset_def Let_def df_getitem_capacity saved_frame
      self_one_file_def report_one_file_def record_one_def group_one_def
      np_min_def np_max_def fminimum_def fmaximum_def isnan_def
      np_mean_def np_sum_short np_std_def np_var_def sq_deviations_def fsub_def
      groupby_agg_def group_of_def pd_mean_def pd_min_def pd_max_def pd_std_def pd_var_def
      kahan_add_def welford_add_def dropna_def Let_def)

lemma csv_one_file:
  "to_csv repr_demo (summary_df report_one_file) = summary_csv_one_file"
  "grouped_to_csv repr_demo (grouped_stats report_one_file) = grouped_csv_one_file"
  by (simp_all add: to_csv_def grouped_to_csv_def report_one_file_def saved_columns_def
      saved_row_def record_one_def csv_line_def repr_demo_values str_nat.simps digit_chars
      summary_csv_one_file_def grouped_csv_one_file_def)

lemma main_one_file: "main binary64 repr_demo fs_one_file = Inr (report_one_file, out_one_file)"
  by (simp add: main_def load_one_file_charge load_one_file_partial summarize_one_file
      csv_one_file out_one_file_def) (simp add: fs_one_file_def)

lemma main_one_file_stale:
  "main binary64 repr_demo fs_one_file_stale = Inr (report_one_file, out_one_file)"
proof -
  have "load_charge_data binary64 fs_one_file_stale = load_charge_data binary64 fs_one_file"
    "load_partial_charge_data binary64 fs_one_file_stale = load_partial_charge_data binary64 fs_one_file"
    by (auto simp: load_charge_data_def load_partial_charge_data_def fs_one_file_stale_def)
  then show ?thesis
    by (simp add: main_def load_one_file_charge load_one_file_partial summarize_one_file
      csv_one_file out_one_file_def) (simp add: fs_one_file_def fs_one_file_stale_def fun_upd_twist)
qed


lemma load_charge_data_cong:
  "charge fs2 = charge fs1 \<Longrightarrow> load_charge_data rnd fs2 = load_charge_data rnd fs1"
  by (rule ext) (simp add: load_charge_data_def)

lemma load_partial_charge_data_cong:
  "partial_charge fs2 = partial_charge fs1 \<Longrightarrow>
     load_partial_charge_data rnd fs2 = load_partial_charge_data rnd fs1"
  by (rule ext) (simp add: load_partial_charge_data_def)

lemma summarize_dataset_output:
  assumes "summarize_dataset rnd fmt self fs1 = Inr (rep, fs1')"
  shows "summarize_dataset rnd fmt self fs2 =
     Inr (rep, fs2\<lparr>output_dir := (output_dir fs2)
             (''battery_cycle_summary.csv'' \<mapsto> to_csv fmt (summary_df rep),
              ''battery_cycle_type_summary.csv'' \<mapsto> grouped_to_csv fmt (grouped_stats rep))\<rparr>)"
  using assms
  by (auto simp: summarize_dataset_def Let_def split: sum.splits)


section \<open>Standard deviations in exact arithmetic\<close>

lemma sq_deviations_exact:
  assumes "xs \<noteq> []"
  shows "sq_deviations exact (map Fin xs) = map Fin (map (\<lambda>x. (x - mean_of xs)\<^sup>2) xs)"
  using np_mean_exact[OF assms]
  by (simp add: sq_deviations_def mean_of_def fsub_def exact_def power2_eq_square Let_def)

lemma np_var_exact:
  assumes "ddof < length xs"
  shows "np_var exact ddof (map Fin xs) =
           Fin ((\<Sum>x\<leftarrow>xs. (x - mean_of xs)\<^sup>2) / real (length xs - ddof))"
proof -
  from assms have ne: "xs \<noteq> []" by auto
  have s: "np_sum exact (sq_deviations exact (map Fin xs)) =
      Fin (\<Sum>x\<leftarrow>xs. (x - mean_of xs)\<^sup>2)"
    unfolding sq_deviations_exact[OF ne] by (rule np_sum_exact)
  have "real (length xs - ddof) \<noteq> 0" using assms by simp
  then show ?thesis
    unfolding np_var_def s length_map by (simp add: exact_def del: of_nat_diff)
qed

lemma sum_sq_nonneg: "0 \<le> (\<Sum>x\<leftarrow>xs. (x - m)\<^sup>2)" for m :: real
  by (rule sum_list_nonneg) auto

lemma np_std_exact:
  assumes "xs \<noteq> []"
  shows "np_std exact (map Fin xs) = Fin (population_std xs)"
proof -
  from assms have "0 < length xs" by simp
  then have "np_var exact 0 (map Fin xs) =
      Fin ((\<Sum>x\<leftarrow>xs. (x - mean_of xs)\<^sup>2) / real (length xs))"
    using np_var_exact[of 0 xs] by simp
  moreover have "0 \<le> (\<Sum>x\<leftarrow>xs. (x - mean_of xs)\<^sup>2) / real (length xs)"
    by (intro divide_nonneg_nonneg sum_sq_nonneg) simp
  ultimately show ?thesis by (simp add: np_std_def population_std_def exact_def)
qed

lemma dropna_map_Fin [simp]: "dropna (map Fin xs) = map Fin xs"
  by (induction xs) (simp_all add: dropna_def isnan_def)

lemma sum_sq_deviations:
  fixes xs :: "real list"
  shows "(\<Sum>x\<leftarrow>xs. (x - c)\<^sup>2) =
     (\<Sum>x\<leftarrow>xs. x\<^sup>2) - 2 * c * sum_list xs + real (length xs) * c\<^sup>2"
  by (induction xs) (simp_all add: power2_eq_square algebra_simps)

lemma sum_sq_deviations_mean:
  fixes xs :: "real list"
  assumes "xs \<noteq> []"
  shows "(\<Sum>x\<leftarrow>xs. (x - mean_of xs)\<^sup>2) =
     (\<Sum>x\<leftarrow>xs. x\<^sup>2) - (sum_list xs)\<^sup>2 / real (length xs)"
proof -
  from assms have n: "real (length xs) \<noteq> 0" by simp
  show ?thesis
    unfolding sum_sq_deviations mean_of_def using n
    by (simp add: power2_eq_square field_simps)
qed

lemma welford_mean_step:
  "0 < N \<Longrightarrow> s / N + (y - s / N) / (N + 1) = (s + y) / (N + 1)" for N :: real
proof -
  assume N: "0 < N"
  then have "N + 1 \<noteq> 0" "N \<noteq> 0" by simp_all
  then show ?thesis
    by (simp add: divide_simps) (simp add: algebra_simps)
qed

lemma welford_m2_step:
  "0 < N \<Longrightarrow> q - s\<^sup>2 / N + (y - (s + y) / (N + 1)) * (y - s / N) =
      q + y\<^sup>2 - (s + y)\<^sup>2 / (N + 1)" for N :: real
proof -
  assume N: "0 < N"
  then have "N + 1 \<noteq> 0" "N \<noteq> 0" by simp_all
  then show ?thesis
    by (simp add: divide_simps power2_eq_square) (simp add: algebra_simps)
qed

lemma welford_add_exact:
  "welford_add exact (n, Fin m, Fin q) (Fin y) =
     (n + 1, Fin (m + (y - m) / real (n + 1)),
      Fin (q + (y - (m + (y - m) / real (n + 1))) * (y - m)))"
  by (simp add: welford_add_def fsub_def exact_def Let_def)

lemma welford_exact:
  "foldl (welford_add exact) (0, Fin 0, Fin 0) (map Fin ys) =
     (length ys, Fin (sum_list ys / real (length ys)),
      Fin ((\<Sum>y\<leftarrow>ys. y\<^sup>2) - (sum_list ys)\<^sup>2 / real (length ys)))"
proof (induction ys rule: rev_induct)
  case Nil
  then show ?case by simp
next
  case (snoc y ys)
  define n where "n = length ys"
  define s where "s = sum_list ys"
  define q where "q = (\<Sum>y\<leftarrow>ys. y\<^sup>2)"
  have st: "foldl (welford_add exact) (0, Fin 0, Fin 0) (map Fin ys) =
      (n, Fin (s / real n), Fin (q - s\<^sup>2 / real n))"
    using snoc.IH by (simp add: n_def s_def q_def)
  have m: "s / real n + (y - s / real n) / real (n + 1) = (s + y) / real (n + 1)"
  proof (cases "n = 0")
    case True
    then have "ys = []" by (simp add: n_def)
    then show ?thesis using True by (simp add: s_def)
  next
    case False
    then have "0 < real n" by simp
    from welford_mean_step[OF this, of s y] show ?thesis by (simp add: add.commute)
  qed
  have v: "q - s\<^sup>2 / real n + (y - (s + y) / real (n + 1)) * (y - s / real n) =
      q + y\<^sup>2 - (s + y)\<^sup>2 / real (n + 1)"
  proof (cases "n = 0")
    case True
    then have "ys = []" by (simp add: n_def)
    then show ?thesis using True by (simp add: s_def q_def power2_eq_square)
  next
    case False
    then have "0 < real n" by simp
    from welford_m2_step[OF this, of q s y] show ?thesis by (simp add: add.commute)
  qed
  have "foldl (welford_add exact) (0, Fin 0, Fin 0) (map Fin (ys @ [y])) =
      (n + 1, Fin ((s + y) / real (n + 1)), Fin (q + y\<^sup>2 - (s + y)\<^sup>2 / real (n + 1)))"
    by (simp only: map_append foldl_append st list.map foldl.simps welford_add_exact m v)
  then show ?case by (simp add: n_def s_def q_def)
qed

lemma pd_var_exact:
  assumes "ddof < length xs"
  shows "pd_var exact ddof (map Fin xs) =
           Fin ((\<Sum>x\<leftarrow>xs. (x - mean_of xs)\<^sup>2) / real (length xs - ddof))"
proof -
  from assms have ne: "xs \<noteq> []" by auto
  have "real (length xs - ddof) \<noteq> 0" using assms by simp
  then show ?thesis using assms
    by (simp add: pd_var_def welford_exact sum_sq_deviations_mean[OF ne] exact_def
        del: of_nat_diff)
qed

lemma pd_std_exact:
  assumes "2 \<le> length xs"
  shows "pd_std exact (map Fin xs) = Fin (sample_std xs)"
proof -
  from assms have 1: "1 < length xs" by simp
  have d: "real (length xs - 1) = real (length xs) - 1" using assms by (simp add: of_nat_diff)
  have "pd_var exact 1 (map Fin xs) =
      Fin ((\<Sum>x\<leftarrow>xs. (x - mean_of xs)\<^sup>2) / (real (length xs) - 1))"
    using pd_var_exact[OF 1] d by simp
  moreover have "0 \<le> (\<Sum>x\<leftarrow>xs. (x - mean_of xs)\<^sup>2) / (real (length xs) - 1)"
    using assms by (intro divide_nonneg_nonneg sum_sq_nonneg) simp
  ultimately show ?thesis by (simp add: pd_std_def sample_std_def exact_def)
qed

lemma finite_capacity_flat:
  "finite_capacity r \<Longrightarrow> flattens_to_float r \<and> flat_capacity r = Fin (the_fin (flat_capacity r))"
  by (auto simp: finite_capacity_def flattens_to_float_def flat_capacity_def the_fin_def)

lemma summarize_dataset_finite:
  assumes "summarize_dataset rnd fmt self fs = Inr (rep, fs')"
    and "\<forall>r\<in>set (summary_data self). finite_capacity r"
  shows "capacity_std rep = np_std rnd (map Fin (all_capacity_values self))"
    and "grouped_stats rep = groupby_agg rnd (map cycle_type (summary_data self))
           (map (\<lambda>r. Fin (the_fin (flat_capacity r))) (summary_data self))"
    and "summary_data self \<noteq> []"
proof -
  let ?data = "summary_data self"
  from assms(2) have fl: "\<forall>r\<in>set ?data. flattens_to_float r"
    and fin: "map flat_capacity ?data = map (\<lambda>r. Fin (the_fin (flat_capacity r))) ?data"
    using finite_capacity_flat by auto
  from assms(1) obtain flattened all_capacities where ne: "?data \<noteq> []"
    and a: "series_apply flatten (map capacity ?data) = Inr flattened"
    and b: "series_apply as_float flattened = Inr all_capacities"
    and c: "capacity_std rep = np_std rnd all_capacities"
      "grouped_stats rep = groupby_agg rnd (map cycle_type ?data) all_capacities"
    by (rule summarize_dataset_Inr) simp
  from a flatten_all(1)[OF fl] have "flattened = map (\<lambda>r. PyFloat (flat_capacity r)) ?data" by simp
  with b flatten_all(2)[OF fl] have "all_capacities = map flat_capacity ?data" by simp
  with fin have all: "all_capacities = map (\<lambda>r. Fin (the_fin (flat_capacity r))) ?data" by simp
  show "capacity_std rep = np_std rnd (map Fin (all_capacity_values self))"
    using c(1) all by (simp add: all_capacity_values_def o_def)
  show "grouped_stats rep = groupby_agg rnd (map cycle_type ?data)
           (map (\<lambda>r. Fin (the_fin (flat_capacity r))) ?data)"
    using c(2) all by simp
  show "?data \<noteq> []" by (rule ne)
qed


lemma sample_std_examples: "sample_std [10, 20, 30] = 10" "sample_std [5, 5, 5] = 0"
  by (simp_all add: sample_std_def mean_of_def sqrt_100)


section \<open>Population and sample standard deviation\<close>

lemma sqrt_16: "sqrt 16 = 4"
  by (rule real_sqrt_unique) simp_all

lemma sqrt_36: "sqrt 36 = 6"
  by (rule real_sqrt_unique) simp_all

lemma std_formula_examples:
  "population_std [14, 20, 26, 16, 16, 16] = 4"
  "sample_std [14, 20, 26] = 6" "sample_std [16, 16, 16] = 0"
  by (simp_all add: population_std_def sample_std_def mean_of_def sqrt_16 sqrt_36)

lemma np_std_example:
  "np_std binary64 [Fin 14, Fin 20, Fin 26, Fin 16, Fin 16, Fin 16] = Fin 4"
  by (simp add: np_std_def np_var_def sq_deviations_def np_mean_def np_sum_short fsub_def
      sqrt_16 Let_def)

lemma pd_std_examples:
  "pd_std binary64 [Fin 14, Fin 20, Fin 26] = Fin 6"
  "pd_std binary64 [Fin 16, Fin 16, Fin 16] = Fin 0"
  by (simp_all add: pd_std_def pd_var_def welford_add_def dropna_def isnan_def fsub_def
      sqrt_36 Let_def)

lemma pd_std_skips_nan:
  "pd_std binary64 [NaN, Fin 10, Fin 20, Fin 30] = Fin 10"
  "np_std binary64 [NaN, Fin 10, Fin 20, Fin 30] = NaN"
  by (simp_all add: pd_std_def pd_var_def welford_add_def dropna_def isnan_def fsub_def
      np_std_def np_var_def sq_deviations_def np_mean_def np_sum_short sqrt_100 Let_def)

lemma pd_std_tenths: "pd_std binary64 [Fin tenth, Fin tenth, Fin tenth] = Fin 0"
proof -
  have t: "binary64 tenth = Fin tenth"
    using binary64_fraction[of 7205759403792794 56] by (simp add: tenth_def)
  have s1: "welford_add binary64 (0, Fin 0, Fin 0) (Fin tenth) = (Suc 0, Fin tenth, Fin 0)"
    by (simp add: welford_add_def fsub_def t Let_def)
  have s2: "welford_add binary64 (n, Fin tenth, Fin 0) (Fin tenth) = (Suc n, Fin tenth, Fin 0)"
    for n
    by (simp add: welford_add_def fsub_def t Let_def)
  have "foldl (welford_add binary64) (0, Fin 0, Fin 0) [Fin tenth, Fin tenth, Fin tenth] =
      (Suc (Suc (Suc 0)), Fin tenth, Fin 0)"
    by (simp only: foldl.simps s1 s2)
  then show ?thesis by (simp add: pd_std_def pd_var_def dropna_def isnan_def)
qed

lemma std_of_infinite:
  "np_std binary64 [PInf, Fin 1] = NaN" "pd_std binary64 [PInf, Fin 1] = NaN"
  by (simp_all add: np_std_def np_var_def sq_deviations_def np_mean_def np_sum_short fsub_def
      pd_std_def pd_var_def welford_add_def dropna_def isnan_def signed_inf_def Let_def)

text \<open>
  Claim C1, as amended.  \<open>summarize_dataset\<close> prints \<^verbatim>\<open>np.std\<close> of all capacities, which
  divides by \<open>N\<close>, and the grouped table holds for each cycle type the pandas \<^verbatim>\<open>std\<close> of the
  capacities of its records, which divides by \<open>N - 1\<close>.  For a summary list whose
  capacities unwrap to finite numbers, in whatever arithmetic the summary is computed:
  the printed global standard deviation is the population standard deviation of all
  capacities whenever rounding has not changed the result of \<^verbatim>\<open>np.std\<close> (it is then the
  result in exact arithmetic); the grouped table has one row for each cycle type; the
  standard deviation of a group with at least two records is the sample standard deviation
  of its capacities whenever rounding has not changed the result of the pandas \<^verbatim>\<open>std\<close>; and
  that of a group with one record is NaN.  In exact arithmetic the two provisos hold by
  themselves.
\<close>

theorem std_conventions:
  assumes "summarize_dataset rnd fmt self fs = Inr (rep, fs')"
    and "\<forall>r\<in>set (summary_data self). finite_capacity r"
  shows "capacity_std rep = np_std rnd (map Fin (all_capacity_values self)) \<and>
         (np_std rnd (map Fin (all_capacity_values self)) =
            np_std exact (map Fin (all_capacity_values self)) \<longrightarrow>
            capacity_std rep = Fin (population_std (all_capacity_values self))) \<and>
         map fst (grouped_stats rep) = sort (remdups (map cycle_type (summary_data self))) \<and>
         (\<forall>(t, g)\<in>set (grouped_stats rep).
            g_std g = pd_std rnd (map Fin (group_capacity_values t self)) \<and>
            (2 \<le> length (group_capacity_values t self) \<and>
             pd_std rnd (map Fin (group_capacity_values t self)) =
               pd_std exact (map Fin (group_capacity_values t self)) \<longrightarrow>
               g_std g = Fin (sample_std (group_capacity_values t self))) \<and>
            (length (group_capacity_values t self) = 1 \<longrightarrow> g_std g = NaN))"
proof -
  let ?data = "summary_data self"
  let ?vals = "map (\<lambda>r. Fin (the_fin (flat_capacity r))) ?data"
  note s = summarize_dataset_finite[OF assms]
  have "all_capacity_values self \<noteq> []" using s(3) by (simp add: all_capacity_values_def)
  then have A: "capacity_std rep = np_std rnd (map Fin (all_capacity_values self)) \<and>
         (np_std rnd (map Fin (all_capacity_values self)) =
            np_std exact (map Fin (all_capacity_values self)) \<longrightarrow>
            capacity_std rep = Fin (population_std (all_capacity_values self)))"
    using s(1) np_std_exact by simp
  have B: "map fst (grouped_stats rep) = sort (remdups (map cycle_type ?data))"
    by (simp add: s(2) groupby_agg_keys)
  have C: "g_std g = pd_std rnd (map Fin (group_capacity_values t self)) \<and>
            (2 \<le> length (group_capacity_values t self) \<and>
             pd_std rnd (map Fin (group_capacity_values t self)) =
               pd_std exact (map Fin (group_capacity_values t self)) \<longrightarrow>
               g_std g = Fin (sample_std (group_capacity_values t self))) \<and>
            (length (group_capacity_values t self) = 1 \<longrightarrow> g_std g = NaN)"
    if "(t, g) \<in> set (grouped_stats rep)" for t g
  proof -
    have grp: "group_of t (map cycle_type ?data) ?vals = map Fin (group_capacity_values t self)"
      by (simp add: group_of_map group_capacity_values_def o_def)
    from that have "g_std g = pd_std rnd (group_of t (map cycle_type ?data) ?vals)"
      unfolding s(2) groupby_agg_def Let_def by auto
    then have "g_std g = pd_std rnd (map Fin (group_capacity_values t self))"
      by (simp only: grp)
    then show ?thesis
      using pd_std_exact pd_std_short[of "map Fin (group_capacity_values t self)" rnd]
      by simp
  qed
  from A B C show ?thesis by blast
qed

text \<open>
  In \<open>binary64\<close> arithmetic, for \<^verbatim>\<open>charge\<close> capacities 14, 20, 26 and \<^verbatim>\<open>partial_charge\<close>
  capacities 16, 16, 16 no operation rounds: the global standard deviation is 4, the
  population value of the six capacities, and the grouped ones are 6 and 0, the sample
  values of the groups.  For one record of each cycle type both grouped values are NaN.
\<close>

theorem std_conventions_witness:
  "map_sum id (\<lambda>out. capacity_std (fst out))
      (summarize_dataset binary64 repr_demo self_conventions fs_one_file) = Inr (Fin 4) \<and>
   population_std [14, 20, 26, 16, 16, 16] = 4 \<and>
   map_sum id (\<lambda>out. map (\<lambda>tg. (fst tg, g_std (snd tg))) (grouped_stats (fst out)))
      (summarize_dataset binary64 repr_demo self_conventions fs_one_file) =
     Inr [(''charge'', Fin 6), (''partial_charge'', Fin 0)] \<and>
   sample_std [14, 20, 26] = 6 \<and> sample_std [16, 16, 16] = 0 \<and>
   map (\<lambda>t. length (group_capacity_values t self_one_file)) [''charge'', ''partial_charge''] =
     [1, 1] \<and>
   map_sum id (\<lambda>out. map (\<lambda>tg. (fst tg, g_std (snd tg))) (grouped_stats (fst out)))
      (summarize_dataset binary64 repr_demo self_one_file fs_one_file) =
     Inr [(''charge'', NaN), (''partial_charge'', NaN)]"
proof -
  have o: "summarize_dataset binary64 repr_demo self_one_file fs_one_file =
     Inr (report_one_file, out_one_file)"
    by (simp add: summarize_one_file csv_one_file out_one_file_def) (simp add: fs_one_file_def)
  have fin1: "\<forall>r\<in>set (summary_data self_one_file). finite_capacity r"
    by (simp add: self_one_file_def record_one_def finite_capacity_def)
  have n1: "map (\<lambda>t. length (group_capacity_values t self_one_file))
      [''charge'', ''partial_charge''] = [1, 1]"
    by (simp add: group_capacity_values_def self_one_file_def record_one_def)
  from std_conventions[OF o fin1] have "\<forall>(t, g)\<in>set (grouped_stats report_one_file).
      length (group_capacity_values t self_one_file) = 1 \<longrightarrow> g_std g = NaN" by blast
  then have "map (\<lambda>tg. (fst tg, g_std (snd tg))) (grouped_stats report_one_file) =
      [(''charge'', NaN), (''partial_charge'', NaN)]"
    using n1 by (simp add: report_one_file_def)
  with o have single: "map_sum id
      (\<lambda>out. map (\<lambda>tg. (fst tg, g_std (snd tg))) (grouped_stats (fst out)))
      (summarize_dataset binary64 repr_demo self_one_file fs_one_file) =
     Inr [(''charge'', NaN), (''partial_charge'', NaN)]" by simp
  let ?data = "summary_data self_conventions"
  have fin: "\<forall>r\<in>set ?data. finite_capacity r"
    by (simp add: self_conventions_def record_with_def finite_capacity_def)
  then have fl: "\<forall>r\<in>set ?data. flattens_to_float r" using finite_capacity_flat by blast
  have ne: "?data \<noteq> []" by (simp add: self_conventions_def)
  from summarize_dataset_eval[OF ne flatten_all[OF fl], of binary64 repr_demo fs_one_file]
  obtain rep fs' where
    s: "summarize_dataset binary64 repr_demo self_conventions fs_one_file = Inr (rep, fs')"
    by metis
  note t = std_conventions[OF s fin]
  have vals: "all_capacity_values self_conventions = [14, 20, 26, 16, 16, 16]"
    "group_capacity_values ''charge'' self_conventions = [14, 20, 26]"
    "group_capacity_values ''partial_charge'' self_conventions = [16, 16, 16]"
    by (simp_all add: all_capacity_values_def group_capacity_values_def self_conventions_def
        record_with_def record_one_def flat_capacity_def the_fin_def)
  have "np_std exact (map Fin [14, 20, 26, 16, 16, 16]) =
      Fin (population_std [14, 20, 26, 16, 16, 16])" by (rule np_std_exact) simp
  then have g0: "np_std binary64 (map Fin [14, 20, 26, 16, 16, 16]) =
      np_std exact (map Fin [14, 20, 26, 16, 16, 16])"
    by (simp add: std_formula_examples np_std_example)
  have e1: "pd_std exact (map Fin [14, 20, 26]) = Fin (sample_std [14, 20, 26])"
    by (rule pd_std_exact) simp
  then have g1: "pd_std binary64 (map Fin [14, 20, 26]) = pd_std exact (map Fin [14, 20, 26])"
    by (simp add: std_formula_examples pd_std_examples)
  have e2: "pd_std exact (map Fin [16, 16, 16]) = Fin (sample_std [16, 16, 16])"
    by (rule pd_std_exact) simp
  then have g2: "pd_std binary64 (map Fin [16, 16, 16]) = pd_std exact (map Fin [16, 16, 16])"
    by (simp add: std_formula_examples pd_std_examples)
  from t have keys: "map fst (grouped_stats rep) =
      sort (remdups (map cycle_type (summary_data self_conventions)))" by blast
  then have "map fst (grouped_stats rep) = [''charge'', ''partial_charge'']"
    by (simp add: self_conventions_def record_with_def record_one_def)
  then obtain g1' g2' where g: "grouped_stats rep = [(''charge'', g1'), (''partial_charge'', g2')]"
    by (auto simp: map_eq_Cons_conv)
  from t have t1: "np_std binary64 (map Fin (all_capacity_values self_conventions)) =
            np_std exact (map Fin (all_capacity_values self_conventions)) \<longrightarrow>
            capacity_std rep = Fin (population_std (all_capacity_values self_conventions))"
    by blast
  from t have t3: "2 \<le> length (group_capacity_values l self_conventions) \<and>
             pd_std binary64 (map Fin (group_capacity_values l self_conventions)) =
               pd_std exact (map Fin (group_capacity_values l self_conventions)) \<longrightarrow>
               g_std h = Fin (sample_std (group_capacity_values l self_conventions))"
    if "(l, h) \<in> set (grouped_stats rep)" for l h using that by blast
  have c: "capacity_std rep = Fin (population_std [14, 20, 26, 16, 16, 16])"
    using t1 g0 unfolding vals by blast
  have "g_std g1' = Fin (sample_std [14, 20, 26])"
    using t3[of "''charge''" g1'] g1 unfolding vals by (simp add: g)
  moreover have "g_std g2' = Fin (sample_std [16, 16, 16])"
    using t3[of "''partial_charge''" g2'] g2 unfolding vals by (simp add: g)
  ultimately show ?thesis using s g c n1 single by (simp add: std_formula_examples)
qed

text \<open>
  Claim C1 as stated fails in the arithmetic of the program: for three capacities equal to
  the \<^verbatim>\<open>float64\<close> nearest to 0.1 the mean that \<^verbatim>\<open>np.std\<close> subtracts is rounded up to
  \<open>0.10000000000000002\<close>, and the printed global standard deviation is \<open>2 powi -56\<close>, while
  the formula gives 0 for three equal numbers.  (The grouped value, accumulated in one
  pass, is 0.)
\<close>

theorem rounded_std_differs_from_formula:
  "map_sum id (\<lambda>out. capacity_std (fst out))
      (summarize_dataset binary64 repr_demo self_tenths fs_one_file) = Inr (Fin (1 / 2 ^ 56)) \<and>
   map_sum id (\<lambda>out. map (\<lambda>tg. (fst tg, g_std (snd tg))) (grouped_stats (fst out)))
      (summarize_dataset binary64 repr_demo self_tenths fs_one_file) = Inr [(''charge'', Fin 0)] \<and>
   all_capacity_values self_tenths = [tenth, tenth, tenth] \<and>
   population_std [tenth, tenth, tenth] = 0 \<and>
   Fin (1 / 2 ^ 56) \<noteq> Fin (population_std (all_capacity_values self_tenths))"
proof -
  let ?data = "summary_data self_tenths"
  have fl: "\<forall>r\<in>set ?data. flattens_to_float r"
    by (simp add: self_tenths_def record_with_def flattens_to_float_def)
  have ne: "?data \<noteq> []" by (simp add: self_tenths_def)
  have caps: "map flat_capacity ?data = [Fin tenth, Fin tenth, Fin tenth]"
    by (simp add: self_tenths_def record_with_def flat_capacity_def)
  have keys: "map cycle_type ?data = [''charge'', ''charge'', ''charge'']"
    by (simp add: self_tenths_def record_with_def record_one_def)
  from summarize_dataset_eval[OF ne flatten_all[OF fl], of binary64 repr_demo fs_one_file]
  obtain rep fs' where
    s: "summarize_dataset binary64 repr_demo self_tenths fs_one_file = Inr (rep, fs')"
    and g: "grouped_stats rep = groupby_agg binary64 (map cycle_type ?data) (map flat_capacity ?data)"
    and c: "capacity_std rep = np_std binary64 (map flat_capacity ?data)"
    by metis
  have c': "capacity_std rep = Fin (1 / 2 ^ 56)" by (simp only: c caps std_tenths)
  have g': "map (\<lambda>tg. (fst tg, g_std (snd tg))) (grouped_stats rep) = [(''charge'', Fin 0)]"
    unfolding g keys caps by (simp add: groupby_agg_def group_of_def pd_std_tenths Let_def)
  have v: "all_capacity_values self_tenths = [tenth, tenth, tenth]"
    by (simp add: all_capacity_values_def caps[symmetric] self_tenths_def record_with_def
        flat_capacity_def the_fin_def)
  show ?thesis using s c' g' v by (simp add: population_std_tenths)
qed

text \<open>
  The claim also fails for a capacity that is NaN: \<^verbatim>\<open>np.std\<close> is then NaN, and the pandas
  \<^verbatim>\<open>std\<close> skips the entry, so that a group of four records with the capacities NaN, 10, 20,
  30 gets the sample standard deviation of 10, 20, 30, which divides by 2.  With an
  infinite capacity both values are NaN.
\<close>

lemma nan_capacity_std:
  "map_sum id (\<lambda>out. capacity_std (fst out))
      (summarize_dataset binary64 repr_demo self_nan fs_one_file) = Inr NaN \<and>
   map_sum id (\<lambda>out. map (\<lambda>tg. (fst tg, g_std (snd tg))) (grouped_stats (fst out)))
      (summarize_dataset binary64 repr_demo self_nan fs_one_file) = Inr [(''charge'', Fin 10)] \<and>
   sample_std [10, 20, 30] = 10"
proof -
  let ?data = "summary_data self_nan"
  have fl: "\<forall>r\<in>set ?data. flattens_to_float r"
    by (simp add: self_nan_def record_with_def flattens_to_float_def)
  have ne: "?data \<noteq> []" by (simp add: self_nan_def)
  have caps: "map flat_capacity ?data = [NaN, Fin 10, Fin 20, Fin 30]"
    by (simp add: self_nan_def record_with_def flat_capacity_def)
  have keys: "map cycle_type ?data = [''charge'', ''charge'', ''charge'', ''charge'']"
    by (simp add: self_nan_def record_with_def record_one_def)
  from summarize_dataset_eval[OF ne flatten_all[OF fl], of binary64 repr_demo fs_one_file]
  obtain rep fs' where
    s: "summarize_dataset binary64 repr_demo self_nan fs_one_file = Inr (rep, fs')"
    and g: "grouped_stats rep = groupby_agg binary64 (map cycle_type ?data) (map flat_capacity ?data)"
    and c: "capacity_std rep = np_std binary64 (map flat_capacity ?data)"
    by metis
  have c': "capacity_std rep = NaN" by (simp only: c caps pd_std_skips_nan)
  have g': "map (\<lambda>tg. (fst tg, g_std (snd tg))) (grouped_stats rep) = [(''charge'', Fin 10)]"
    unfolding g keys caps by (simp add: groupby_agg_def group_of_def pd_std_skips_nan Let_def)
  show ?thesis using s c' g' by (simp add: sample_std_examples)
qed


section \<open>The summary list and the battery dictionary\<close>

lemma file_loop_at_most_one:
  assumes "file_loop rnd label files st = Inr st'" "length files \<le> 1"
    and "\<forall>n. battery_key n label \<notin> fst ` set (battery_data st)"
  shows "group_cycles st' + length (summary_data st) = group_cycles st + length (summary_data st')"
proof (cases files)
  case Nil
  then show ?thesis using assms(1) by simp
next
  case (Cons mat rest)
  with assms(2) have "rest = []" by simp
  with Cons assms(1) have "battery_loop rnd label 0 mat st = Inr st'"
    by (simp split: sum.splits)
  then show ?thesis using assms(3) by (intro battery_loop_fresh) auto
qed


text \<open>
  Claim C2, as amended.  After both loads the summary list has at least as many records as
  the entries of the battery dictionary have cycles together, and exactly as many when
  neither directory holds more than one file.
\<close>

theorem summary_length_vs_groups:
  assumes "load_charge_data rnd fs init = Inr self1"
    and "load_partial_charge_data rnd fs self1 = Inr self2"
  shows "group_cycles self2 \<le> length (summary_data self2) \<and>
         ((\<forall>files. charge fs = Some files \<or> partial_charge fs = Some files \<longrightarrow> length files \<le> 1)
            \<longrightarrow> length (summary_data self2) = group_cycles self2)"
proof -
  from assms(1) obtain cf where cf: "charge fs = Some cf"
    and l1: "file_loop rnd ''charge'' cf init = Inr self1"
    by (auto simp: load_charge_data_def split: option.splits)
  from assms(2) obtain pf where pf: "partial_charge fs = Some pf"
    and l2: "file_loop rnd ''partial_charge'' pf self1 = Inr self2"
    by (auto simp: load_partial_charge_data_def split: option.splits)
  have "group_cycles self1 \<le> length (summary_data self1)"
    using file_loop_group_cycles_le[OF l1] by simp
  then have le: "group_cycles self2 \<le> length (summary_data self2)"
    by (rule file_loop_group_cycles_le[OF l2])
  have eq: "length (summary_data self2) = group_cycles self2"
    if one: "\<forall>files. charge fs = Some files \<or> partial_charge fs = Some files \<longrightarrow> length files \<le> 1"
  proof -
    from one cf pf have c1: "length cf \<le> 1" and p1: "length pf \<le> 1" by auto
    have e1: "group_cycles self1 = length (summary_data self1)"
      using file_loop_at_most_one[OF l1 c1] by simp
    have "fst ` set (battery_data self1) = (\<lambda>(n, l). battery_key n l) ` loaded_positions ''charge'' cf"
      using file_loop_keys[OF l1] by simp
    then have "\<forall>n. battery_key n ''partial_charge'' \<notin> fst ` set (battery_data self1)"
      by (auto simp: loaded_positions_def battery_key_inj)
    from file_loop_at_most_one[OF l2 p1 this] e1 show ?thesis by simp
  qed
  from le eq show ?thesis by blast
qed

theorem summary_length_vs_groups_witness:
  "load_charge_data binary64 fs_one_file init = Inr self_one_file_charge \<and>
   load_partial_charge_data binary64 fs_one_file self_one_file_charge = Inr self_one_file \<and>
   length (summary_data self_one_file) = group_cycles self_one_file \<and>
   group_cycles self_one_file = 2"
proof -
  have one: "\<forall>files. charge fs_one_file = Some files \<or> partial_charge fs_one_file = Some files
      \<longrightarrow> length files \<le> 1" by (auto simp: fs_one_file_def)
  have "group_cycles self_one_file = 2"
    by (simp add: self_one_file_def group_cycles_def group_one_def)
  then show ?thesis
    using summary_length_vs_groups[OF load_one_file_charge load_one_file_partial] one
      load_one_file_charge load_one_file_partial
    by blast
qed


text \<open>
  Claim C2 as stated fails when a directory holds two files: both files store their first
  battery under the key \<^verbatim>\<open>battery_1_charge\<close>, the second group replaces the first, and the
  summary list keeps the records of both.  Here it has 3 records and the dictionary 2 groups
  of one cycle.
\<close>

theorem two_files_more_records_than_grouped:
  "load_charge_data binary64 fs_two_files init = Inr self_two_files_charge \<and>
   load_partial_charge_data binary64 fs_two_files self_two_files_charge = Inr self_two_files \<and>
   length (summary_data self_two_files) = 3 \<and> group_cycles self_two_files = 2 \<and>
   length (summary_data self_two_files) \<noteq> group_cycles self_two_files"
  using load_two_files_charge load_two_files_partial
  by (simp add: self_two_files_def group_cycles_def group_one_def)


section \<open>Cycle indices\<close>

text \<open>
  Claim C3, as amended.  After both loads, in every entry of the battery dictionary the
  cycle indices run \<open>0, 1, \<dots>\<close> in the order of the cycles of the battery the entry was
  built from (so they are unique there), and the records carry the battery identifier and
  the label of the key; every record of the summary list has the index of its cycle in its
  source battery; and when neither directory holds more than one file, the records of the
  summary list with one battery identifier and one cycle type have the indices
  \<open>0, 1, \<dots>\<close> in order, without repetition.
\<close>

theorem cycle_idx_in_groups:
  assumes "load_charge_data rnd fs init = Inr self1"
    and "load_partial_charge_data rnd fs self1 = Inr self2"
  shows "(\<forall>(k, g)\<in>set (battery_data self2).
            map cycle_idx (cycles g) = [0..<length (cycles g)] \<and>
            (\<exists>label files mat b.
               in_directory fs label files \<and> mat \<in> set files \<and> b < length mat \<and>
               k = battery_key (b + 1) label \<and> group_of_battery rnd label b (mat ! b) g \<and>
               (\<forall>f\<in>set (cycles g). battery_id f = b + 1 \<and> cycle_type f = label))) \<and>
         (\<forall>f\<in>set (summary_data self2).
            \<exists>label files b c cy.
               in_directory fs label files \<and> (b, c, cy) \<in> set (source_order files) \<and>
               extract_features rnd label b c cy = Inr f \<and>
               battery_id f = b + 1 \<and> cycle_type f = label \<and> cycle_idx f = c) \<and>
         ((\<forall>files. charge fs = Some files \<or> partial_charge fs = Some files \<longrightarrow> length files \<le> 1)
            \<longrightarrow> (\<forall>b t. map cycle_idx (records_of_group b t self2) =
                        [0..<length (records_of_group b t self2)]))"
proof -
  from assms obtain cf pf where cf: "charge fs = Some cf" and pf: "partial_charge fs = Some pf"
    and l1: "file_loop rnd ''charge'' cf init = Inr self1"
    and l2: "file_loop rnd ''partial_charge'' pf self1 = Inr self2"
    by (rule loads_unfold)
  define P where "P k g \<longleftrightarrow>
            map cycle_idx (cycles g) = [0..<length (cycles g)] \<and>
            (\<exists>label files mat b.
               in_directory fs label files \<and> mat \<in> set files \<and> b < length mat \<and>
               k = battery_key (b + 1) label \<and> group_of_battery rnd label b (mat ! b) g \<and>
               (\<forall>f\<in>set (cycles g). battery_id f = b + 1 \<and> cycle_type f = label))" for k g
  have step: "P (battery_key (b + 1) label) g"
    if "in_directory fs label files" "mat \<in> set files" "b < length mat"
      "group_of_battery rnd label b (mat ! b) g" for label files mat b g
  proof -
    from that(4) have "length (cycles g) = length (mat ! b)" by (simp add: group_of_battery_def)
    with group_of_battery_ids[OF that(4)] that show ?thesis unfolding P_def by auto
  qed
  have "\<forall>(k, g)\<in>set (battery_data self1). P k g"
    by (rule file_loop_entries[OF l1]) (use step[of "''charge''" cf] cf in \<open>auto simp: in_directory_def\<close>)
  then have A: "\<forall>(k, g)\<in>set (battery_data self2). P k g"
    by (rule file_loop_entries[OF l2])
       (use step[of "''partial_charge''" pf] pf in \<open>auto simp: in_directory_def\<close>)
  from loaded_summary[OF l1 l2] obtain cs ps where sum: "summary_data self2 = cs @ ps"
    and c: "list_all2 (extracted rnd ''charge'') (source_order cf) cs"
    and p: "list_all2 (extracted rnd ''partial_charge'') (source_order pf) ps" by blast
  have B: "\<exists>label files b c cy.
               in_directory fs label files \<and> (b, c, cy) \<in> set (source_order files) \<and>
               extract_features rnd label b c cy = Inr f \<and>
               battery_id f = b + 1 \<and> cycle_type f = label \<and> cycle_idx f = c"
    if "f \<in> set (summary_data self2)" for f
  proof -
    from that sum consider "f \<in> set cs" | "f \<in> set ps" by auto
    then obtain label files src where d: "in_directory fs label files"
      and s: "src \<in> set (source_order files)" "extracted rnd label src f"
    proof cases
      case 1
      from list_all2_set2[OF c 1] obtain src where "src \<in> set (source_order cf)"
        "extracted rnd ''charge'' src f" by blast
      moreover have "in_directory fs ''charge'' cf" using cf by (simp add: in_directory_def)
      ultimately show ?thesis using that by blast
    next
      case 2
      from list_all2_set2[OF p 2] obtain src where "src \<in> set (source_order pf)"
        "extracted rnd ''partial_charge'' src f" by blast
      moreover have "in_directory fs ''partial_charge'' pf"
        using pf by (simp add: in_directory_def)
      ultimately show ?thesis using that by blast
    qed
    obtain b c cy where src: "src = (b, c, cy)" by (cases src) auto
    from s(2) have "extract_features rnd label b c cy = Inr f" by (simp add: src)
    with d s(1) extract_features_ids[OF this] show ?thesis unfolding src by blast
  qed
  have C: "map cycle_idx (records_of_group b t self2) = [0..<length (records_of_group b t self2)]"
    if one: "\<forall>files. charge fs = Some files \<or> partial_charge fs = Some files \<longrightarrow> length files \<le> 1"
    for b t
  proof -
    from one cf pf have c1: "length cf \<le> 1" and p1: "length pf \<le> 1" by auto
    let ?Q = "\<lambda>f. battery_id f = b \<and> cycle_type f = t"
    have r: "records_of_group b t self2 = filter ?Q cs @ filter ?Q ps"
      by (simp add: records_of_group_def sum)
    show ?thesis
    proof (cases "t = ''charge''")
      case True
      then have "filter ?Q ps = []" using filter_other_label[OF p, of t b] by simp
      then show ?thesis using group_segment[OF c c1, of b t] r by simp
    next
      case False
      then have "filter ?Q cs = []" using filter_other_label[OF c, of t b] by simp
      then show ?thesis using group_segment[OF p p1, of b t] r by simp
    qed
  qed
  from A B C show ?thesis unfolding P_def by blast
qed

text \<open>
  An input with one file in each directory, whose first battery of \<^verbatim>\<open>charge/\<close> has two
  cycles, whose second has one, and whose battery of \<^verbatim>\<open>partial_charge/\<close> has two: the
  indices of every entry of the dictionary and of every group of records of the summary
  list count the cycles of the battery in their order.
\<close>

theorem cycle_idx_in_groups_witness:
  "load_charge_data binary64 fs_two_cycles init = Inr self_two_cycles_charge \<and>
   load_partial_charge_data binary64 fs_two_cycles self_two_cycles_charge = Inr self_two_cycles \<and>
   map (\<lambda>(k, g). (k, map cycle_idx (cycles g))) (battery_data self_two_cycles) =
     [(''battery_1_charge'', [0, 1]), (''battery_2_charge'', [0]),
      (''battery_1_partial_charge'', [0, 1])] \<and>
   records_of_group 1 ''charge'' self_two_cycles =
     [record_one ''charge'', record_two ''charge'' 1] \<and>
   map cycle_idx (records_of_group 1 ''charge'' self_two_cycles) = [0, 1] \<and>
   records_of_group 2 ''charge'' self_two_cycles =
     [(record_two ''charge'' 0)\<lparr>battery_id := 2\<rparr>] \<and>
   map cycle_idx (records_of_group 2 ''charge'' self_two_cycles) = [0] \<and>
   records_of_group 1 ''partial_charge'' self_two_cycles =
     [record_two ''partial_charge'' 0, (record_one ''partial_charge'')\<lparr>cycle_idx := 1\<rparr>] \<and>
   map cycle_idx (records_of_group 1 ''partial_charge'' self_two_cycles) = [0, 1] \<and>
   extract_features binary64 ''charge'' 0 0 cycle_one = Inr (record_one ''charge'') \<and>
   extract_features binary64 ''charge'' 0 1 cycle_two = Inr (record_two ''charge'' 1)"
proof -
  note t = cycle_idx_in_groups[OF load_two_cycles_charge load_two_cycles_partial]
  have one: "\<forall>files. charge fs_two_cycles = Some files \<or> partial_charge fs_two_cycles = Some files
      \<longrightarrow> length files \<le> 1" by (auto simp: fs_two_cycles_def)
  have r: "records_of_group 1 ''charge'' self_two_cycles =
       [record_one ''charge'', record_two ''charge'' 1]"
    "records_of_group 2 ''charge'' self_two_cycles =
       [(record_two ''charge'' 0)\<lparr>battery_id := 2\<rparr>]"
    "records_of_group 1 ''partial_charge'' self_two_cycles =
       [record_two ''partial_charge'' 0, (record_one ''partial_charge'')\<lparr>cycle_idx := 1\<rparr>]"
    by (simp_all add: records_of_group_def self_two_cycles_def record_one_def record_two_def)
  from t one have i: "map cycle_idx (records_of_group b l self_two_cycles) =
      [0..<length (records_of_group b l self_two_cycles)]" for b l by blast
  have i1: "map cycle_idx (records_of_group 1 ''charge'' self_two_cycles) = [0, 1]"
    using i[of 1 "''charge''"] by (simp only: r) (simp add: upt_rec)
  have i2: "map cycle_idx (records_of_group 2 ''charge'' self_two_cycles) = [0]"
    using i[of 2 "''charge''"] by (simp only: r) (simp add: upt_rec)
  have i3: "map cycle_idx (records_of_group 1 ''partial_charge'' self_two_cycles) = [0, 1]"
    using i[of 1 "''partial_charge''"] by (simp only: r) (simp add: upt_rec)
  have d: "map (\<lambda>(k, g). (k, map cycle_idx (cycles g))) (battery_data self_two_cycles) =
     [(''battery_1_charge'', [0, 1]), (''battery_2_charge'', [0]),
      (''battery_1_partial_charge'', [0, 1])]"
    by (simp add: self_two_cycles_def record_one_def record_two_def)
  show ?thesis
    using load_two_cycles_charge load_two_cycles_partial d r i1 i2 i3
      extract_cycle_one[of "''charge''"] extract_cycle_two[of "''charge''" 1]
    by simp
qed


text \<open>
  Claim C3 as stated fails when a directory holds two files: the first battery of each file
  gives records with battery identifier 1, cycle type \<^verbatim>\<open>charge\<close> and cycle index 0, and the
  summary list keeps both.
\<close>

theorem two_files_repeat_cycle_idx:
  "load_charge_data binary64 fs_two_files init = Inr self_two_files_charge \<and>
   load_partial_charge_data binary64 fs_two_files self_two_files_charge = Inr self_two_files \<and>
   map cycle_idx (records_of_group 1 ''charge'' self_two_files) = [0, 0] \<and>
   \<not> distinct (map cycle_idx (records_of_group 1 ''charge'' self_two_files))"
  using load_two_files_charge load_two_files_partial
  by (simp add: records_of_group_def self_two_files_def record_one_def)


section \<open>Maximum and mean of a signal\<close>

lemma np_mean_exact_finite:
  assumes "xs \<noteq> []" and "\<forall>x\<in>set xs. isfinite x"
  shows "np_mean exact xs = real_mean xs"
proof -
  from assms(2) have xs: "xs = map Fin (map the_fin xs)" by (rule finite_list_map_Fin)
  from assms(1) have ne: "map the_fin xs \<noteq> []" by simp
  have "np_mean exact (map Fin (map the_fin xs)) = real_mean xs"
    unfolding np_mean_exact[OF ne] by (simp add: real_mean_def mean_of_def)
  with xs show ?thesis by simp
qed

lemma mean_le_max:
  assumes "np_max xs = Inr m" and "\<forall>x\<in>set xs. isfinite x"
  shows "fle (real_mean xs) m"
proof -
  from assms(2) have xs: "xs = map Fin (map the_fin xs)" by (rule finite_list_map_Fin)
  define ys where "ys = map the_fin xs"
  from assms(1) have "xs \<noteq> []" by (auto simp: np_max_def)
  then have ne: "ys \<noteq> []" by (simp add: ys_def)
  have xs': "xs = map Fin ys" using xs by (simp add: ys_def)
  have "m = Fin (Max (set ys))" using assms(1) np_max_Fin[OF ne] by (simp add: xs')
  then show ?thesis
    using sum_list_le_Max[OF ne] by (simp add: real_mean_def mean_of_def ys_def)
qed



lemma extract_features_fields:
  assumes "extract_features rnd label b c cy = Inr f"
  shows "np_max (relative_time_min cy) = Inr (time_max f)"
    "np_max (current_A cy) = Inr (current_max f)"
    "np_max (voltage_V cy) = Inr (voltage_max f)"
    "np_max (temperature_C cy) = Inr (temperature_max f)"
    "time_mean f = np_mean rnd (relative_time_min cy)"
    "current_mean f = np_mean rnd (current_A cy)"
    "voltage_mean f = np_mean rnd (voltage_V cy)"
    "temperature_mean f = np_mean rnd (temperature_C cy)"
  using assms
  by (auto simp: extract_features_def Let_def split: list.splits sum.splits)

text \<open>In exact arithmetic the claim holds as stated, for finite samples.\<close>

lemma max_ge_mean_exact:
  assumes "extract_features exact label b c cy = Inr f"
    and "\<forall>x\<in>set (relative_time_min cy @ current_A cy @ voltage_V cy @ temperature_C cy).
           isfinite x"
  shows "fle (time_mean f) (time_max f) \<and> fle (current_mean f) (current_max f) \<and>
         fle (voltage_mean f) (voltage_max f) \<and> fle (temperature_mean f) (temperature_max f)"
proof -
  note e = extract_features_fields[OF assms(1)]
  from assms(2) have fin: "\<forall>x\<in>set (relative_time_min cy). isfinite x"
    "\<forall>x\<in>set (current_A cy). isfinite x" "\<forall>x\<in>set (voltage_V cy). isfinite x"
    "\<forall>x\<in>set (temperature_C cy). isfinite x" by auto
  from e(1-4) have ne: "relative_time_min cy \<noteq> []" "current_A cy \<noteq> []" "voltage_V cy \<noteq> []"
    "temperature_C cy \<noteq> []" by (auto simp: np_max_def)
  show ?thesis
    using mean_le_max[OF e(1) fin(1)] mean_le_max[OF e(2) fin(2)]
      mean_le_max[OF e(3) fin(3)] mean_le_max[OF e(4) fin(4)]
    by (simp add: e(5-8) np_mean_exact_finite ne fin)
qed




lemma fadd_NaN: "fadd rnd a NaN = NaN" "fadd rnd NaN a = NaN"
  by (cases a; simp)+

text \<open>
  The claim also fails for samples that are not finite, in any arithmetic: a NaN sample
  makes both \<^verbatim>\<open>np.mean\<close> and \<^verbatim>\<open>np.max\<close> NaN, the two infinities together make the mean NaN,
  and no comparison with NaN holds.
\<close>

lemma non_finite_samples:
  "map_sum id (\<lambda>f. (time_mean f, time_max f))
     (extract_features rnd ''charge'' 0 0 cycle_nan) = Inr (NaN, NaN)"
  "map_sum id (\<lambda>f. (time_mean f, time_max f))
     (extract_features rnd ''charge'' 0 0 cycle_inf) = Inr (NaN, PInf)"
  "\<not> fle NaN NaN" "\<not> fle NaN PInf"
  by (simp_all add: extract_features_def cycle_nan_def cycle_inf_def cycle_one_def np_max_def
      np_mean_def np_sum_short fmaximum_def isnan_def fadd_NaN)


section \<open>Grouped statistics of the synthetic input\<close>

text \<open>
  Claim C5.  For a summary list whose three \<^verbatim>\<open>charge\<close> records have the capacities 10, 20,
  30 and whose three \<^verbatim>\<open>partial_charge\<close> records have the capacities 5, 5, 5 (as scalars or
  arrays of length one), \<open>summarize_dataset\<close> succeeds in \<open>binary64\<close> arithmetic and its
  grouped statistics are: \<^verbatim>\<open>charge\<close> mean 20, min 10, max 30, std 10; \<^verbatim>\<open>partial_charge\<close> mean
  5, min 5, max 5, std 0.
\<close>

theorem grouped_statistics_example:
  assumes "map cycle_type (summary_data self) =
      [''charge'', ''charge'', ''charge'', ''partial_charge'', ''partial_charge'', ''partial_charge'']"
    and "map (\<lambda>r. flatten (capacity r)) (summary_data self) =
      map (\<lambda>x. Inr (PyFloat (Fin x))) [10, 20, 30, 5, 5, 5]"
  shows "map_sum id (\<lambda>out. grouped_stats (fst out)) (summarize_dataset binary64 fmt self fs) =
     Inr [(''charge'', \<lparr>g_mean = Fin 20, g_min = Fin 10, g_max = Fin 30, g_std = Fin 10\<rparr>),
          (''partial_charge'', \<lparr>g_mean = Fin 5, g_min = Fin 5, g_max = Fin 5, g_std = Fin 0\<rparr>)]"
proof -
  from assms(1) have ne: "summary_data self \<noteq> []" by auto
  have "map flatten (map capacity (summary_data self)) =
      map Inr (map (\<lambda>x. PyFloat (Fin x)) [10, 20, 30, 5, 5, 5])"
    using assms(2) by (simp add: o_def)
  then have fl: "series_apply flatten (map capacity (summary_data self)) =
      Inr (map (\<lambda>x. PyFloat (Fin x)) [10, 20, 30, 5, 5, 5])"
    by (rule series_apply_map_Inr)
  have af: "series_apply as_float (map (\<lambda>x. PyFloat (Fin x)) [10, 20, 30, 5, 5, 5]) =
      Inr [Fin 10, Fin 20, Fin 30, Fin 5, Fin 5, Fin 5]" by simp
  from summarize_dataset_eval[OF ne fl af, of binary64 fmt fs] obtain rep fs'
    where "summarize_dataset binary64 fmt self fs = Inr (rep, fs')"
      "grouped_stats rep = groupby_agg binary64 (map cycle_type (summary_data self))
         [Fin 10, Fin 20, Fin 30, Fin 5, Fin 5, Fin 5]" by metis
  then show ?thesis by (simp add: assms(1) groupby_example)
qed

theorem grouped_statistics_example_witness:
  "map cycle_type (summary_data self_synthetic) =
      [''charge'', ''charge'', ''charge'', ''partial_charge'', ''partial_charge'', ''partial_charge'']
   \<and> map (\<lambda>r. flatten (capacity r)) (summary_data self_synthetic) =
      map (\<lambda>x. Inr (PyFloat (Fin x))) [10, 20, 30, 5, 5, 5]
   \<and> map_sum id (\<lambda>out. grouped_stats (fst out))
        (summarize_dataset binary64 repr_demo self_synthetic fs_one_file) =
     Inr [(''charge'', \<lparr>g_mean = Fin 20, g_min = Fin 10, g_max = Fin 30, g_std = Fin 10\<rparr>),
          (''partial_charge'', \<lparr>g_mean = Fin 5, g_min = Fin 5, g_max = Fin 5, g_std = Fin 0\<rparr>)]"
proof -
  have a: "map cycle_type (summary_data self_synthetic) =
      [''charge'', ''charge'', ''charge'', ''partial_charge'', ''partial_charge'', ''partial_charge'']"
    by (simp add: self_synthetic_def record_with_def record_one_def)
  have b: "map (\<lambda>r. flatten (capacity r)) (summary_data self_synthetic) =
      map (\<lambda>x. Inr (PyFloat (Fin x))) [10, 20, 30, 5, 5, 5]"
    by (simp add: self_synthetic_def record_with_def)
  show ?thesis
    using grouped_statistics_example[OF a b, of repr_demo fs_one_file] a b by simp
qed


section \<open>The saved frame\<close>





section \<open>Empty signals\<close>

lemma extract_features_empty_signal:
  "empty_signal cy \<Longrightarrow>
     extract_features rnd label b c cy =
       Inl (if capacity_array cy = [] then IndexError else ValueError)"
  by (auto simp: empty_signal_def extract_features_def np_max_def Let_def
      split: list.splits sum.splits)

lemma file_loop_empty_signal:
  assumes "(b, c, cy) \<in> set (source_order files)" "empty_signal cy"
  shows "isl (file_loop rnd label files st)"
proof (rule ccontr)
  assume "\<not> isl (file_loop rnd label files st)"
  then obtain st' where "file_loop rnd label files st = Inr st'"
    by (cases "file_loop rnd label files st") auto
  from file_loop_summary[OF this] obtain fs
    where "list_all2 (extracted rnd label) (source_order files) fs" by auto
  with assms(1) obtain f where "extracted rnd label (b, c, cy) f"
    by (auto simp: list_all2_conv_all_nth in_set_conv_nth)
  with assms(2) show False using extract_features_empty_signal[of cy rnd label b c] by auto
qed

lemma isl_bind:
  "isl m \<Longrightarrow> isl (case m of Inl e \<Rightarrow> Inl e | Inr x \<Rightarrow> k x)"
  by (cases m) auto

text \<open>
  Claim C7.  When a cycle of some file has a signal without samples, the loop body raises
  for that cycle (ValueError from \<^verbatim>\<open>np.max\<close>, unless indexing its capacity already raised
  IndexError) instead of building a record, and nothing catches it: the loader of the
  directory that holds the file ends with that exception from any state of the explorer,
  and so does \<open>main\<close>.
\<close>

theorem empty_signal_is_fatal:
  assumes "(b, c, cy) \<in> set (source_order files)" and "empty_signal cy"
  shows "extract_features rnd label b c cy =
           Inl (if capacity_array cy = [] then IndexError else ValueError) \<and>
         (charge fs = Some files \<longrightarrow>
            isl (load_charge_data rnd fs self) \<and> isl (main rnd fmt fs)) \<and>
         (partial_charge fs = Some files \<longrightarrow>
            isl (load_partial_charge_data rnd fs self) \<and> isl (main rnd fmt fs))"
proof (intro conjI impI)
  show "extract_features rnd label b c cy =
           Inl (if capacity_array cy = [] then IndexError else ValueError)"
    using assms(2) by (rule extract_features_empty_signal)
next
  assume "charge fs = Some files"
  then have *: "load_charge_data rnd fs st = file_loop rnd ''charge'' files st" for st
    by (simp add: load_charge_data_def)
  show "isl (load_charge_data rnd fs self)"
    unfolding * by (rule file_loop_empty_signal[OF assms])
  have "isl (load_charge_data rnd fs init)"
    unfolding * by (rule file_loop_empty_signal[OF assms])
  then show "isl (main rnd fmt fs)"
    unfolding main_def by (rule isl_bind)
next
  assume "partial_charge fs = Some files"
  then have *: "load_partial_charge_data rnd fs st = file_loop rnd ''partial_charge'' files st"
    for st by (simp add: load_partial_charge_data_def)
  show "isl (load_partial_charge_data rnd fs self)"
    unfolding * by (rule file_loop_empty_signal[OF assms])
  show "isl (main rnd fmt fs)"
  proof (cases "load_charge_data rnd fs init")
    case (Inl e)
    then show ?thesis by (simp add: main_def)
  next
    case (Inr self1)
    have "isl (load_partial_charge_data rnd fs self1)"
      unfolding * by (rule file_loop_empty_signal[OF assms])
    then show ?thesis
      unfolding main_def Inr by (simp add: isl_bind)
  qed
qed

theorem empty_signal_is_fatal_witness:
  "(0, 0, cycle_no_time) \<in> set (source_order [[[cycle_no_time]]]) \<and>
   empty_signal cycle_no_time \<and>
   extract_features binary64 ''charge'' 0 0 cycle_no_time = Inl ValueError \<and>
   isl (load_charge_data binary64 fs_no_time init) \<and> isl (main binary64 repr_demo fs_no_time)"
proof -
  have a: "(0, 0, cycle_no_time) \<in> set (source_order [[[cycle_no_time]]])"
    by (simp add: source_order_def battery_order_def)
  have b: "empty_signal cycle_no_time" by (simp add: empty_signal_def cycle_no_time_def)
  have c: "charge fs_no_time = Some [[[cycle_no_time]]]" by (simp add: fs_no_time_def)
  have d: "capacity_array cycle_no_time \<noteq> []" by (simp add: cycle_no_time_def)
  show ?thesis
    using empty_signal_is_fatal[OF a b, of binary64 "''charge''" fs_no_time init repr_demo] a b c d
    by simp
qed

section \<open>A group with a single record\<close>

text \<open>
  Claim C8.  When every capacity of the summary list unwraps to a \<^verbatim>\<open>float64\<close> and exactly one
  record has the cycle type \<open>t\<close>, \<open>summarize_dataset\<close> succeeds and the standard deviation
  of the group \<open>t\<close> is NaN: pandas divides by \<open>N - 1\<close> and defines the result as NaN when
  the group has fewer than two valid entries.
\<close>

theorem single_record_group_std_nan:
  assumes "\<forall>r\<in>set (summary_data self). flattens_to_float r"
    and "length (filter (\<lambda>r. cycle_type r = t) (summary_data self)) = 1"
  shows "\<exists>rep fs' g. summarize_dataset rnd fmt self fs = Inr (rep, fs') \<and>
           map_of (grouped_stats rep) t = Some g \<and> g_std g = NaN"
proof -
  let ?data = "summary_data self"
  from assms(2) have "filter (\<lambda>r. cycle_type r = t) ?data \<noteq> []" by auto
  then obtain r where r: "r \<in> set ?data" "cycle_type r = t"
    by (auto simp: filter_empty_conv)
  then have ne: "?data \<noteq> []" and t: "t \<in> set (map cycle_type ?data)" by auto
  from summarize_dataset_eval[OF ne flatten_all[OF assms(1)], of rnd fmt fs] obtain rep fs'
    where s: "summarize_dataset rnd fmt self fs = Inr (rep, fs')"
      and g: "grouped_stats rep = groupby_agg rnd (map cycle_type ?data) (map flat_capacity ?data)"
    by metis
  let ?g = "group_of t (map cycle_type ?data) (map flat_capacity ?data)"
  have "length ?g = 1" using assms(2) by (simp add: group_of_map)
  then have "pd_std rnd ?g = NaN" by (simp add: pd_std_short)
  with s g groupby_agg_lookup[OF t, of rnd "map flat_capacity ?data"] show ?thesis by simp
qed

theorem single_record_group_std_nan_witness:
  "length (filter (\<lambda>r. cycle_type r = ''charge'') (summary_data self_one_file)) = 1 \<and>
   summarize_dataset binary64 repr_demo self_one_file fs_one_file =
     Inr (report_one_file, out_one_file) \<and>
   map_of (grouped_stats report_one_file) ''charge'' =
     Some \<lparr>g_mean = Fin 1, g_min = Fin 1, g_max = Fin 1, g_std = NaN\<rparr>"
proof -
  have a: "\<forall>r\<in>set (summary_data self_one_file). flattens_to_float r"
    by (simp add: self_one_file_def flattens_to_float_def record_one_def)
  have b: "length (filter (\<lambda>r. cycle_type r = ''charge'') (summary_data self_one_file)) = 1"
    by (simp add: self_one_file_def record_one_def)
  have c: "summarize_dataset binary64 repr_demo self_one_file fs_one_file =
     Inr (report_one_file, out_one_file)"
    by (simp add: summarize_one_file csv_one_file out_one_file_def) (simp add: fs_one_file_def)
  have d: "map_of (grouped_stats report_one_file) ''charge'' =
     Some \<lparr>g_mean = Fin 1, g_min = Fin 1, g_max = Fin 1, g_std = NaN\<rparr>"
    by (simp add: report_one_file_def)
  show ?thesis
    using single_record_group_std_nan[OF a b, of binary64 repr_demo fs_one_file] b c d by simp
qed


section \<open>Running twice\<close>

text \<open>
  Claim C9.  The two CSV files that a successful run writes are determined by the two input
  directories (the decoded files in their listing order), the arithmetic and the formatting
  of \<^verbatim>\<open>float64\<close> values: a run on a file system with the same input directories, whatever
  its output directory holds, prints the same report and writes the same two texts; in
  particular a second run on the file system the first run left changes nothing.
\<close>

theorem rerun_gives_same_csv:
  assumes "main rnd fmt fs1 = Inr (rep, fs1')"
    and "charge fs2 = charge fs1" and "partial_charge fs2 = partial_charge fs1"
  shows "output_dir fs1' ''battery_cycle_summary.csv'' = Some (to_csv fmt (summary_df rep)) \<and>
         output_dir fs1' ''battery_cycle_type_summary.csv'' =
           Some (grouped_to_csv fmt (grouped_stats rep)) \<and>
         (\<exists>fs2'. main rnd fmt fs2 = Inr (rep, fs2') \<and>
            output_dir fs2' ''battery_cycle_summary.csv'' =
              output_dir fs1' ''battery_cycle_summary.csv'' \<and>
            output_dir fs2' ''battery_cycle_type_summary.csv'' =
              output_dir fs1' ''battery_cycle_type_summary.csv'') \<and>
         main rnd fmt fs1' = Inr (rep, fs1')"
proof -
  from assms(1) obtain self1 self2 where l1: "load_charge_data rnd fs1 init = Inr self1"
    and l2: "load_partial_charge_data rnd fs1 self1 = Inr self2"
    and s: "summarize_dataset rnd fmt self2 fs1 = Inr (rep, fs1')" by (rule main_Inr)
  have out: "fs1' = fs1\<lparr>output_dir := (output_dir fs1)
             (''battery_cycle_summary.csv'' \<mapsto> to_csv fmt (summary_df rep),
              ''battery_cycle_type_summary.csv'' \<mapsto> grouped_to_csv fmt (grouped_stats rep))\<rparr>"
    using summarize_dataset_output[OF s, of fs1] s by simp
  have A: "output_dir fs1' ''battery_cycle_summary.csv'' = Some (to_csv fmt (summary_df rep))"
    "output_dir fs1' ''battery_cycle_type_summary.csv'' =
           Some (grouped_to_csv fmt (grouped_stats rep))"
    by (simp_all add: out)
  have run: "main rnd fmt fs =
     Inr (rep, fs\<lparr>output_dir := (output_dir fs)
             (''battery_cycle_summary.csv'' \<mapsto> to_csv fmt (summary_df rep),
              ''battery_cycle_type_summary.csv'' \<mapsto> grouped_to_csv fmt (grouped_stats rep))\<rparr>)"
    if "charge fs = charge fs1" "partial_charge fs = partial_charge fs1" for fs
    using l1 l2 summarize_dataset_output[OF s, of fs]
    by (simp add: main_def load_charge_data_cong[OF that(1)]
        load_partial_charge_data_cong[OF that(2)])
  have B: "\<exists>fs2'. main rnd fmt fs2 = Inr (rep, fs2') \<and>
            output_dir fs2' ''battery_cycle_summary.csv'' =
              output_dir fs1' ''battery_cycle_summary.csv'' \<and>
            output_dir fs2' ''battery_cycle_type_summary.csv'' =
              output_dir fs1' ''battery_cycle_type_summary.csv''"
    using run[OF assms(2,3)] A by simp
  have "charge fs1' = charge fs1" "partial_charge fs1' = partial_charge fs1"
    by (simp_all add: out)
  from run[OF this] have C: "main rnd fmt fs1' = Inr (rep, fs1')"
    by (simp add: out)
  from A B C show ?thesis by blast
qed

theorem rerun_gives_same_csv_witness:
  "main binary64 repr_demo fs_one_file = Inr (report_one_file, out_one_file) \<and>
   charge fs_one_file_stale = charge fs_one_file \<and>
   partial_charge fs_one_file_stale = partial_charge fs_one_file \<and>
   main binary64 repr_demo fs_one_file_stale = Inr (report_one_file, out_one_file) \<and>
   main binary64 repr_demo out_one_file = Inr (report_one_file, out_one_file) \<and>
   output_dir out_one_file ''battery_cycle_summary.csv'' = Some summary_csv_one_file \<and>
   output_dir out_one_file ''battery_cycle_type_summary.csv'' = Some grouped_csv_one_file"
proof -
  have a: "charge fs_one_file_stale = charge fs_one_file"
    and b: "partial_charge fs_one_file_stale = partial_charge fs_one_file"
    by (simp_all add: fs_one_file_stale_def)
  show ?thesis
    using rerun_gives_same_csv[OF main_one_file a b] main_one_file main_one_file_stale a b
    by (simp add: csv_one_file)
qed


section \<open>Batteries at the same position in several files\<close>

text \<open>
  Claim C10.  The key of a group is made of the battery position and the label only.  After
  both loads the dictionary has one entry for each pair of a position and a label that
  occurs in some file, while the summary list has one record for every cycle of every
  battery of every file; and the entry for position \<open>n + 1\<close> holds the group built from
  the last file of the directory that has a battery at that position, whatever earlier
  files stored there.  The battery count that \<open>summarize_dataset\<close> reports is the number of
  these pairs and its cycle count the number of all cycles; and it does report them, at the
  end of \<open>main\<close>, when some cycle was loaded and the capacities unwrap to \<^verbatim>\<open>float64\<close> values.
\<close>

theorem later_file_replaces_group:
  assumes "load_charge_data rnd fs init = Inr self1"
    and "load_partial_charge_data rnd fs self1 = Inr self2"
    and "charge fs = Some cf" and "partial_charge fs = Some pf"
  shows "length (battery_data self2) =
           card (loaded_positions ''charge'' cf \<union> loaded_positions ''partial_charge'' pf) \<and>
         length (summary_data self2) = length (source_order cf) + length (source_order pf) \<and>
         (\<forall>label files j n.
            in_directory fs label files \<and> j < length files \<and> n < length (files ! j) \<and>
            (\<forall>i. j < i \<and> i < length files \<longrightarrow> length (files ! i) \<le> n) \<longrightarrow>
            (\<exists>g. map_of (battery_data self2) (battery_key (n + 1) label) = Some g \<and>
                 group_of_battery rnd label n (files ! j ! n) g)) \<and>
         (\<forall>fmt rep fs'. summarize_dataset rnd fmt self2 fs = Inr (rep, fs') \<longrightarrow>
            total_batteries rep =
              card (loaded_positions ''charge'' cf \<union> loaded_positions ''partial_charge'' pf) \<and>
            total_cycles rep = length (source_order cf) + length (source_order pf)) \<and>
         (summary_data self2 \<noteq> [] \<and> (\<forall>r\<in>set (summary_data self2). flattens_to_float r) \<longrightarrow>
            (\<exists>rep fs'. main rnd fmt fs = Inr (rep, fs') \<and>
               total_batteries rep =
                 card (loaded_positions ''charge'' cf \<union> loaded_positions ''partial_charge'' pf) \<and>
               total_cycles rep = length (source_order cf) + length (source_order pf)))"
proof -
  from assms have l1: "file_loop rnd ''charge'' cf init = Inr self1"
    and l2: "file_loop rnd ''partial_charge'' pf self1 = Inr self2"
    by (auto simp: load_charge_data_def load_partial_charge_data_def)
  let ?P = "loaded_positions ''charge'' cf \<union> loaded_positions ''partial_charge'' pf"
  have "length (battery_data self2) = card (fst ` set (battery_data self2))"
    using loaded_keys(2)[OF l1 l2] distinct_card[of "map fst (battery_data self2)"] by simp
  also have "\<dots> = card ((\<lambda>(n, l). battery_key n l) ` ?P)"
    by (simp only: loaded_keys(1)[OF l1 l2])
  also have "\<dots> = card ?P"
    by (rule card_image) (rule inj_on_subset[OF inj_battery_key], simp)
  finally have A: "length (battery_data self2) = card ?P" .
  from loaded_summary[OF l1 l2] have B:
    "length (summary_data self2) = length (source_order cf) + length (source_order pf)"
    by (auto dest!: list_all2_lengthD)
  have C: "\<exists>g. map_of (battery_data self2) (battery_key (n + 1) label) = Some g \<and>
                 group_of_battery rnd label n (files ! j ! n) g"
    if d: "in_directory fs label files" and j: "j < length files" and n: "n < length (files ! j)"
      and last: "\<forall>i. j < i \<and> i < length files \<longrightarrow> length (files ! i) \<le> n"
    for label files j n
  proof -
    from d assms(3,4) consider "label = ''charge''" "files = cf"
      | "label = ''partial_charge''" "files = pf"
      by (auto simp: in_directory_def)
    then show ?thesis
    proof cases
      case 1
      from file_loop_last_wins[OF l1] j n last 1 obtain g
        where g: "map_of (battery_data self1) (battery_key (n + 1) label) = Some g"
          "group_of_battery rnd label n (files ! j ! n) g" by blast
      have "battery_key (n + 1) label \<notin>
          (\<lambda>(n, l). battery_key n l) ` loaded_positions ''partial_charge'' pf"
        using 1 by (auto simp: loaded_positions_def battery_key_inj)
      from file_loop_untouched[OF l2 this] g show ?thesis by simp
    next
      case 2
      then show ?thesis using file_loop_last_wins[OF l2] j n last by blast
    qed
  qed
  have D: "total_batteries rep = card ?P \<and>
      total_cycles rep = length (source_order cf) + length (source_order pf)"
    if "summarize_dataset rnd fmt self2 fs = Inr (rep, fs')" for fmt rep fs'
    using that A B
    by (auto simp: summarize_dataset_def Let_def split: sum.splits)
  have E: "\<exists>rep fs'. main rnd fmt fs = Inr (rep, fs') \<and> total_batteries rep = card ?P \<and>
      total_cycles rep = length (source_order cf) + length (source_order pf)"
    if ne: "summary_data self2 \<noteq> []" and fl: "\<forall>r\<in>set (summary_data self2). flattens_to_float r"
  proof -
    from summarize_dataset_eval[OF ne flatten_all[OF fl], of rnd fmt fs] obtain rep fs'
      where s: "summarize_dataset rnd fmt self2 fs = Inr (rep, fs')" by metis
    have "main rnd fmt fs = Inr (rep, fs')" using assms(1,2) s by (simp add: main_def)
    with D[OF s] show ?thesis by blast
  qed
  from A B C D E show ?thesis by blast
qed


text \<open>
  Two different files in \<^verbatim>\<open>charge/\<close>, each with one battery: the entry \<^verbatim>\<open>battery_1_charge\<close>
  holds the group of the second file and not that of the first, the summary list holds the
  records of both, and \<open>main\<close> reports 2 batteries and 3 cycles for the 3 batteries loaded.
\<close>

theorem later_file_replaces_group_witness:
  "load_charge_data binary64 fs_later_file init = Inr self_later_file_charge \<and>
   load_partial_charge_data binary64 fs_later_file self_later_file_charge = Inr self_later_file \<and>
   card (loaded_positions ''charge'' [[[cycle_one]], [[cycle_two]]] \<union>
         loaded_positions ''partial_charge'' [[[cycle_one]]]) = 2 \<and>
   length (concat [[[cycle_one]], [[cycle_two]]]) + length (concat [[[cycle_one]]]) = 3 \<and>
   length (battery_data self_later_file) = 2 \<and>
   map_of (battery_data self_later_file) ''battery_1_charge'' = Some (group_two ''charge'') \<and>
   cycles (group_two ''charge'') = [record_two ''charge'' 0] \<and>
   extract_features binary64 ''charge'' 0 0 cycle_two = Inr (record_two ''charge'' 0) \<and>
   extract_features binary64 ''charge'' 0 0 cycle_one = Inr (record_one ''charge'') \<and>
   record_two ''charge'' 0 \<noteq> record_one ''charge'' \<and>
   summary_data self_later_file =
     [record_one ''charge'', record_two ''charge'' 0, record_one ''partial_charge''] \<and>
   map_sum id (\<lambda>out. (total_batteries (fst out), total_cycles (fst out)))
     (main binary64 repr_demo fs_later_file) = Inr (2, 3)"
proof -
  have c: "charge fs_later_file = Some [[[cycle_one]], [[cycle_two]]]"
    and p: "partial_charge fs_later_file = Some [[[cycle_one]]]"
    by (simp_all add: fs_later_file_def)
  note t = later_file_replaces_group[OF load_later_file_charge load_later_file_partial c p,
      of repr_demo]
  have l: "length (battery_data self_later_file) = 2" "length (summary_data self_later_file) = 3"
    by (simp_all add: self_later_file_def)
  have m: "map_of (battery_data self_later_file) ''battery_1_charge'' = Some (group_two ''charge'')"
    by (simp add: self_later_file_def)
  have s: "summary_data self_later_file =
     [record_one ''charge'', record_two ''charge'' 0, record_one ''partial_charge'']"
    by (simp add: self_later_file_def)
  have ne: "summary_data self_later_file \<noteq> []" by (simp add: s)
  have fl: "\<forall>r\<in>set (summary_data self_later_file). flattens_to_float r"
    by (simp add: s flattens_to_float_def record_one_def record_two_def)
  from t l have k: "card (loaded_positions ''charge'' [[[cycle_one]], [[cycle_two]]] \<union>
         loaded_positions ''partial_charge'' [[[cycle_one]]]) = 2"
    and n: "length (source_order [[[cycle_one]], [[cycle_two]]]) +
        length (source_order [[[cycle_one]]]) = 3" by simp_all
  from t ne fl obtain rep fs' where r: "main binary64 repr_demo fs_later_file = Inr (rep, fs')"
    "total_batteries rep = card (loaded_positions ''charge'' [[[cycle_one]], [[cycle_two]]] \<union>
         loaded_positions ''partial_charge'' [[[cycle_one]]])"
    "total_cycles rep = length (source_order [[[cycle_one]], [[cycle_two]]]) +
        length (source_order [[[cycle_one]]])" by blast
  have d: "record_two ''charge'' 0 \<noteq> record_one ''charge''"
    by (simp add: record_one_def record_two_def)
  show ?thesis
    using load_later_file_charge load_later_file_partial k l m s d r n
      extract_cycle_one[of "''charge''"] extract_cycle_two[of "''charge''" 0]
    by (simp add: group_two_def)
qed

end
